theory Spec2Isabelle
  imports Main
begin

section \<open>JavaScript strings\<close>

text \<open>
  A JavaScript string is modelled as a \<^typ>\<open>string\<close>: a list of code units, here
  restricted to the code units below 256. The helpers below follow the ECMAScript
  definitions of the \<open>String.prototype\<close> methods that the extension calls.
\<close>

definition startsWith :: "string \<Rightarrow> string \<Rightarrow> bool" where
  "startsWith p s = (take (length p) s = p)"

text \<open>\<open>s.indexOf(p)\<close>: the first position where \<open>p\<close> occurs, \<open>None\<close> for -1.\<close>

fun indexOfFrom :: "string \<Rightarrow> string \<Rightarrow> nat \<Rightarrow> nat option" where
  "indexOfFrom p [] i = (if p = [] then Some i else None)"
| "indexOfFrom p (c # cs) i =
     (if startsWith p (c # cs) then Some i else indexOfFrom p cs (Suc i))"

definition indexOf :: "string \<Rightarrow> string \<Rightarrow> nat option" where
  "indexOf s p = indexOfFrom p s 0"

text \<open>
  \<open>s.split(sep)\<close> with a string separator. The accumulator holds the current piece,
  reversed. An empty separator splits into single code units.
\<close>

fun splitGo :: "string \<Rightarrow> string \<Rightarrow> string \<Rightarrow> string list" where
  "splitGo sep acc [] = [rev acc]"
| "splitGo sep acc (c # cs) =
     (if startsWith sep (c # cs)
      then rev acc # splitGo sep [] (drop (length sep - 1) cs)
      else splitGo sep (c # acc) cs)"

definition split :: "string \<Rightarrow> string \<Rightarrow> string list" where
  "split s sep = (if sep = [] then map (\<lambda>c. [c]) s else splitGo sep [] s)"

text \<open>
  \<open>s.trim()\<close> removes white space and line terminators at both ends: of the code units
  below 256 these are TAB, LF, VT, FF, CR, SP and NBSP.
\<close>

definition isWhiteSpace :: "char \<Rightarrow> bool" where
  "isWhiteSpace c = (c \<in> set [CHR 0x09, CHR 0x0A, CHR 0x0B, CHR 0x0C, CHR 0x0D, CHR '' '', CHR 0xA0])"

definition trim :: "string \<Rightarrow> string" where
  "trim s = rev (dropWhile isWhiteSpace (rev (dropWhile isWhiteSpace s)))"

text \<open>\<open>xs.join(sep)\<close>.\<close>

fun join :: "string \<Rightarrow> string list \<Rightarrow> string" where
  "join sep [] = []"
| "join sep [x] = x"
| "join sep (x # y # ys) = x @ sep @ join sep (y # ys)"

text \<open>
  \<open>s.replace(p, r)\<close> with a string pattern replaces the first occurrence of \<open>p\<close>. The
  replacement text is expanded as ECMAScript's GetSubstitution does when there are no
  captures: \<open>$$\<close> is a dollar sign, \<open>$&\<close> the matched text, \<open>$`\<close> the text before the
  match and \<open>$'\<close> the text after it; every other character stands for itself.
\<close>

fun getSubstitution :: "string \<Rightarrow> string \<Rightarrow> string \<Rightarrow> string \<Rightarrow> string" where
  "getSubstitution matched pre post [] = []"
| "getSubstitution matched pre post [c] = [c]"
| "getSubstitution matched pre post (c # d # r) =
     (if c = CHR ''$'' \<and> d = CHR ''$'' then CHR ''$'' # getSubstitution matched pre post r
      else if c = CHR ''$'' \<and> d = CHR ''&'' then matched @ getSubstitution matched pre post r
      else if c = CHR ''$'' \<and> d = CHR 0x60 then pre @ getSubstitution matched pre post r
      else if c = CHR ''$'' \<and> d = CHR 0x27 then post @ getSubstitution matched pre post r
      else c # getSubstitution matched pre post (d # r))"

definition replace :: "string \<Rightarrow> string \<Rightarrow> string \<Rightarrow> string" where
  "replace s p r =
     (case indexOf s p of
        None \<Rightarrow> s
      | Some i \<Rightarrow>
          take i s @ getSubstitution p (take i s) (drop (i + length p) s) r
            @ drop (i + length p) s)"

section \<open>Regular expressions\<close>

text \<open>
  The extension scans source text with regular expressions. They are embedded as
  values of the type \<open>rx\<close> and run by a backtracking matcher that returns every way a
  pattern can match at a position, in the order in which the ECMAScript matcher tries
  them; the first element is the match that JavaScript reports.

  A matcher state is the text before the position (reversed), the text after it, and the
  text of capture group 1 when it has been set.
\<close>

datatype rx =
    Cls "char \<Rightarrow> bool"
  | Str string
  | Eps
  | Cat rx rx
  | Or rx rx
  | Star rx
  | LazyStar rx
  | Bol
  | Grp rx
  | NotBehind rx

type_synonym mstate = "string \<times> string \<times> string option"

definition isLineTerminator :: "char \<Rightarrow> bool" where
  "isLineTerminator c = (c = CHR 0x0A \<or> c = CHR 0x0D)"

function rmatch :: "rx \<Rightarrow> mstate \<Rightarrow> mstate list" where
  "rmatch (Cls P) (b, s, g) =
     (case s of [] \<Rightarrow> [] | c # cs \<Rightarrow> if P c then [(c # b, cs, g)] else [])"
| "rmatch (Str t) (b, s, g) =
     (if startsWith t s then [(rev t @ b, drop (length t) s, g)] else [])"
| "rmatch Eps (b, s, g) = [(b, s, g)]"
| "rmatch (Cat r1 r2) (b, s, g) = concat (map (rmatch r2) (rmatch r1 (b, s, g)))"
| "rmatch (Or r1 r2) (b, s, g) = rmatch r1 (b, s, g) @ rmatch r2 (b, s, g)"
| "rmatch (Star r) (b, s, g) =
     concat (map (\<lambda>(b', s', g'). if length s' < length s then rmatch (Star r) (b', s', g') else [])
               (rmatch r (b, s, g)))
       @ [(b, s, g)]"
| "rmatch (LazyStar r) (b, s, g) =
     (b, s, g) #
     concat (map (\<lambda>(b', s', g'). if length s' < length s then rmatch (LazyStar r) (b', s', g') else [])
               (rmatch r (b, s, g)))"
| "rmatch Bol (b, s, g) =
     (case b of [] \<Rightarrow> [(b, s, g)] | c # _ \<Rightarrow> if isLineTerminator c then [(b, s, g)] else [])"
| "rmatch (Grp r) (b, s, g) =
     map (\<lambda>(b', s', g'). (b', s', Some (rev (take (length b' - length b) b')))) (rmatch r (b, s, g))"
| "rmatch (NotBehind r) (b, s, g) =
     (if list_ex (\<lambda>k. list_ex (\<lambda>(b', s', g'). length s' = length s)
                        (rmatch r (drop k b, rev (take k b) @ s, g)))
           [0..<Suc (length b)]
      then [] else [(b, s, g)])"
  by pat_completeness auto
termination
  by (relation "inv_image (less_than <*lex*> less_than) (\<lambda>(r, b, s, g). (size r, length s))") auto


text \<open>
  \<open>scanAll r b s\<close> lists the successive matches of a pattern with the \<open>g\<close> flag,
  as a \<open>regex.exec\<close> loop or \<open>String.prototype.match\<close> finds them: from the current
  position the first position where the pattern matches is taken, then the search
  resumes at the end of that match (one code unit further when the match is empty).
  Each match is given as its text and capture group 1.
\<close>

function scanAll :: "rx \<Rightarrow> string \<Rightarrow> string \<Rightarrow> (string \<times> string option) list" where
  "scanAll r b [] =
     (case rmatch r (b, [], None) of
        [] \<Rightarrow> []
      | (b1, s1, g1) # _ \<Rightarrow> [(rev (take (length b1 - length b) b1), g1)])"
| "scanAll r b (c # cs) =
     (case rmatch r (b, c # cs, None) of
        [] \<Rightarrow> scanAll r (c # b) cs
      | (b1, s1, g1) # _ \<Rightarrow>
          (rev (take (length b1 - length b) b1), g1) #
          (if length s1 \<le> length cs then scanAll r b1 s1 else scanAll r (c # b) cs))"
  by pat_completeness auto
termination
  by (relation "measure (\<lambda>(r, b, s). length s)") auto

text \<open>\<open>s.replace(r, "")\<close> for a pattern with the \<open>g\<close> flag: every match is removed.\<close>

function stripAll :: "rx \<Rightarrow> string \<Rightarrow> string \<Rightarrow> string" where
  "stripAll r b [] = []"
| "stripAll r b (c # cs) =
     (case rmatch r (b, c # cs, None) of
        [] \<Rightarrow> c # stripAll r (c # b) cs
      | (b1, s1, g1) # _ \<Rightarrow>
          (if length s1 \<le> length cs then stripAll r b1 s1 else c # stripAll r (c # b) cs))"
  by pat_completeness auto
termination
  by (relation "measure (\<lambda>(r, b, s). length s)") auto

text \<open>\<open>s.match(r)\<close> for a pattern without the \<open>g\<close> flag, as a truth value.\<close>

fun testRx :: "rx \<Rightarrow> string \<Rightarrow> string \<Rightarrow> bool" where
  "testRx r b [] = (rmatch r (b, [], None) \<noteq> [])"
| "testRx r b (c # cs) = (rmatch r (b, c # cs, None) \<noteq> [] \<or> testRx r (c # b) cs)"

subsection \<open>The patterns of javaCodeHandler.ts\<close>

fun cats :: "rx list \<Rightarrow> rx" where
  "cats [] = Eps"
| "cats [r] = r"
| "cats (r # rs) = Cat r (cats rs)"

fun alts :: "rx list \<Rightarrow> rx" where
  "alts [] = Cls (\<lambda>c. False)"
| "alts [r] = r"
| "alts (r # rs) = Or r (alts rs)"

definition Plus :: "rx \<Rightarrow> rx" where
  "Plus r = Cat r (Star r)"

definition Opt :: "rx \<Rightarrow> rx" where
  "Opt r = Or r Eps"

definition isUpper :: "char \<Rightarrow> bool" where
  "isUpper c = (c \<in> set ''ABCDEFGHIJKLMNOPQRSTUVWXYZ'')"

definition isLower :: "char \<Rightarrow> bool" where
  "isLower c = (c \<in> set ''abcdefghijklmnopqrstuvwxyz'')"

definition isDigit :: "char \<Rightarrow> bool" where
  "isDigit c = (c \<in> set ''0123456789'')"

text \<open>\<open>\w\<close>, \<open>\W\<close>, \<open>\s\<close> and \<open>.\<close> of ECMAScript.\<close>

definition isWord :: "char \<Rightarrow> bool" where
  "isWord c = (isUpper c \<or> isLower c \<or> isDigit c \<or> c = CHR ''_'')"

definition Word :: rx where "Word = Cls isWord"
definition NonWord :: rx where "NonWord = Cls (\<lambda>c. \<not> isWord c)"
definition Space :: rx where "Space = Cls isWhiteSpace"
definition Dot :: rx where "Dot = Cls (\<lambda>c. \<not> isLineTerminator c)"

text \<open>\<open>[A-Za-z_$]\<close>, \<open>[A-Za-z0-9_]\<close>, \<open>[\w<>\[\]\?]\<close> and \<open>[^\)]\<close>.\<close>

definition IdentStart :: rx where
  "IdentStart = Cls (\<lambda>c. isUpper c \<or> isLower c \<or> c = CHR ''_'' \<or> c = CHR ''$'')"

definition IdentChar :: rx where
  "IdentChar = Cls (\<lambda>c. isUpper c \<or> isLower c \<or> isDigit c \<or> c = CHR ''_'')"

definition TypeChar :: rx where
  "TypeChar = Cls (\<lambda>c. isWord c \<or> c \<in> set ''<>[]?'')"

definition NotClose :: rx where
  "NotClose = Cls (\<lambda>c. c \<noteq> CHR '')'')"

definition Identifier :: rx where
  "Identifier = Cat IdentStart (Star IdentChar)"

text \<open>\<open>(?:public|protected|private|static|final|native|synchronized|abstract|transient|\t| )*\<close>\<close>

definition modifierWords :: "string list" where
  "modifierWords = [''public'', ''protected'', ''private'', ''static'', ''final'', ''native'',
     ''synchronized'', ''abstract'', ''transient'']"

definition ModifiersAndBlanks :: rx where
  "ModifiersAndBlanks = Star (alts (map Str (modifierWords @ [[CHR 0x09], '' ''])))"

text \<open>
  \<^verbatim>\<open>/^(?:public|...|\t| )*(?:<.*>\s+)?[\w<>\[\]\?]+\s+([A-Za-z_$][A-Za-z0-9_]*)\<close>
  \<^verbatim>\<open>(?<!if|switch|while|for|(?:public|protected|private|return) [A-Za-z_$][A-Za-z0-9_]*)\([^\)]*\)/gm\<close>
\<close>

definition methodDeclarationRegex :: rx where
  "methodDeclarationRegex = cats
     [Bol, ModifiersAndBlanks,
      Opt (cats [Str ''<'', Star Dot, Str ''>'', Plus Space]),
      Plus TypeChar, Plus Space,
      Grp Identifier,
      NotBehind (alts [Str ''if'', Str ''switch'', Str ''while'', Str ''for'',
        cats [alts [Str ''public'', Str ''protected'', Str ''private'', Str ''return''],
              Str '' '', Identifier]]),
      Str ''('', Star NotClose, Str '')'']"

text \<open>
  \<^verbatim>\<open>/(?<!\/\/.*)(while *\([^\)]*\)|for *\([^\)]*\)|\<close>
  \<^verbatim>\<open>[A-Za-z_$][A-Za-z0-9_]*(?<!\W+(if|switch))\([^\)]*\))/g\<close>
\<close>

definition significantCodeChangeRegex :: rx where
  "significantCodeChangeRegex = cats
     [NotBehind (cats [Str ''//'', Star Dot]),
      alts
        [cats [Str ''while'', Star (Str '' ''), Str ''('', Star NotClose, Str '')''],
         cats [Str ''for'', Star (Str '' ''), Str ''('', Star NotClose, Str '')''],
         cats [Identifier,
               NotBehind (cats [Plus NonWord, alts [Str ''if'', Str ''switch'']]),
               Str ''('', Star NotClose, Str '')'']]]"

text \<open>
  \<^verbatim>\<open>/^(?:public|...|\t| )*class\s[A-Za-z_$][A-Za-z0-9_]*(?:<(.*?)>)?/gm\<close>
\<close>

definition classRegex :: rx where
  "classRegex = cats
     [Bol, ModifiersAndBlanks, Str ''class'', Space, Identifier,
      Opt (cats [Str ''<'', Grp (LazyStar Dot), Str ''>''])]"

text \<open>
  \<^verbatim>\<open>/(public|protected|private|static|final|native|synchronized|abstract|transient)/\<close>
\<close>

definition modifierRegex :: rx where
  "modifierRegex = alts (map Str modifierWords)"


section \<open>JavaScript arrays and maps\<close>

text \<open>\<open>xs[i]\<close>: \<open>None\<close> stands for \<open>undefined\<close>, the value of an index out of range.\<close>

fun at :: "'a list \<Rightarrow> nat \<Rightarrow> 'a option" where
  "at [] i = None"
| "at (x # xs) 0 = Some x"
| "at (x # xs) (Suc i) = at xs i"

text \<open>\<open>xs.indexOf(x)\<close> and \<open>xs.splice(i, 1)\<close>.\<close>

fun arrayIndexOf :: "'a list \<Rightarrow> 'a \<Rightarrow> nat option" where
  "arrayIndexOf [] x = None"
| "arrayIndexOf (y # ys) x = (if y = x then Some 0 else map_option Suc (arrayIndexOf ys x))"

definition splice1 :: "nat \<Rightarrow> 'a list \<Rightarrow> 'a list" where
  "splice1 i xs = take i xs @ drop (Suc i) xs"

text \<open>
  A JavaScript \<open>Map\<close> keeps its entries in insertion order; \<open>set\<close> on a key that is
  present replaces the value in place.
\<close>

type_synonym ('k, 'v) jsmap = "('k \<times> 'v) list"

fun mapGet :: "('k, 'v) jsmap \<Rightarrow> 'k \<Rightarrow> 'v option" where
  "mapGet [] k = None"
| "mapGet ((k', v) # m) k = (if k' = k then Some v else mapGet m k)"

fun mapSet :: "('k, 'v) jsmap \<Rightarrow> 'k \<Rightarrow> 'v \<Rightarrow> ('k, 'v) jsmap" where
  "mapSet [] k v = [(k, v)]"
| "mapSet ((k', v') # m) k v = (if k' = k then (k, v) # m else (k', v') # mapSet m k v)"

section \<open>Data model\<close>

text \<open>
  Reading a property of \<open>undefined\<close> and iterating over \<open>undefined\<close> raise a
  \<open>TypeError\<close>; these are the only exceptions of the code below.
\<close>

datatype error = TypeError

text \<open>
  Modelled from the spec: the declarations \<open>InferCostItem\<close> and \<open>LineDiff\<close> of
  \<open>./types\<close> are not part of the sources. A cost entry has the fields of section 3 of
  the specification; the optional fields \<open>timestamp\<close> and \<open>changeCauseMethods\<close> are
  \<open>None\<close> when absent.
\<close>

record Cost =
  polynomial :: string
  degree :: int
  big_o :: string

record Loc =
  file_name :: string
  lnum :: int

record InferCostItem =
  item_id :: string
  method_name :: string
  parameterTypes :: "string list"
  loc :: Loc
  alloc_cost :: Cost
  exec_cost :: Cost
  timestamp :: "string option"
  changeCauseMethods :: "string list option"

text \<open>
  Modelled from the spec: a segment of the diff provider (section 6) carries a text and
  one of three states. The test
  \<open>hasOwnProperty('added') || hasOwnProperty('removed')\<close> of the classifier holds for
  the added and the removed segments.
\<close>

datatype DiffState = Added | Removed | Unchanged

record LineDiff =
  diffValue :: string
  diffState :: DiffState

definition isChanged :: "LineDiff \<Rightarrow> bool" where
  "isChanged part = (diffState part = Added \<or> diffState part = Removed)"

text \<open>
  Cost entries are objects that the cost lists and the histories share: the state holds
  them in a store, and the lists hold their addresses. \<open>currentInferCost\<close> is
  \<open>undefined\<close> (\<open>None\<close>) until a cost report has been read. \<open>fired\<close> counts the
  notifications sent by \<open>significantCodeChange.fire()\<close>.
\<close>

record state =
  heap :: "nat \<Rightarrow> InferCostItem"
  activeFileName :: string
  savedDocumentTexts :: "(string, string) jsmap"
  currentInferCost :: "nat list option"
  inferCosts :: "(string, nat list) jsmap"
  inferCostHistories :: "(string, nat list) jsmap"
  nonConstantMethods :: "string list"
  fired :: nat

section \<open>javaCodeHandler.ts\<close>

subsection \<open>The registry of non-constant methods\<close>

definition resetNonConstantMethods :: "state \<Rightarrow> state" where
  "resetNonConstantMethods st = st\<lparr>nonConstantMethods := []\<rparr>"

fun removeMethods :: "string list \<Rightarrow> string list \<Rightarrow> string list" where
  "removeMethods [] registry = registry"
| "removeMethods (name # names) registry =
     removeMethods names
       (case arrayIndexOf registry name of
          None \<Rightarrow> registry
        | Some methodIndex \<Rightarrow> splice1 methodIndex registry)"

definition resetNonConstantMethodsForFile :: "state \<Rightarrow> error + state" where
  "resetNonConstantMethodsForFile st =
     (case currentInferCost st of
        None \<Rightarrow> Inl TypeError
      | Some items \<Rightarrow>
          Inr (st\<lparr>nonConstantMethods :=
                 removeMethods (map (\<lambda>a. method_name (heap st a)) items) (nonConstantMethods st)\<rparr>))"

subsection \<open>Parameter types of a declaration\<close>

text \<open>
  The loop \<open>for (let i = 1; parameterType.match(...); i++)\<close>: as long as the candidate
  contains a modifier word, the next part of the parameter is taken; a part that does not
  exist is \<open>undefined\<close>, and \<open>undefined.split\<close> raises.
\<close>

definition splitHead :: "string \<Rightarrow> string \<Rightarrow> string option" where
  "splitHead s sep = at (split s sep) 0"

fun skipModifiers :: "string \<Rightarrow> string list \<Rightarrow> error + string" where
  "skipModifiers parameterType rest =
     (if testRx modifierRegex [] parameterType
      then (case rest of
              [] \<Rightarrow> Inl TypeError
            | part # rest' \<Rightarrow>
                (case splitHead part ''<'' of
                   None \<Rightarrow> Inl TypeError
                 | Some t \<Rightarrow> skipModifiers t rest'))
      else Inr parameterType)"

fun applyTypeExtensions :: "(string, string) jsmap \<Rightarrow> string \<Rightarrow> string" where
  "applyTypeExtensions [] parameterType = parameterType"
| "applyTypeExtensions ((k, v) # typeExtensions) parameterType =
     applyTypeExtensions typeExtensions
       (if splitHead parameterType ''['' = Some k then replace parameterType k v
        else parameterType)"

definition parameterTypeOf :: "(string, string) jsmap \<Rightarrow> string \<Rightarrow> error + string" where
  "parameterTypeOf typeExtensions parameter =
     (let parameterParts = split (trim parameter) '' '' in
      case parameterParts of
        [] \<Rightarrow> Inl TypeError
      | part # rest \<Rightarrow>
          (case splitHead part ''<'' of
             None \<Rightarrow> Inl TypeError
           | Some t \<Rightarrow>
               (case skipModifiers t rest of
                  Inl e \<Rightarrow> Inl e
                | Inr parameterType \<Rightarrow>
                    Inr (replace (applyTypeExtensions typeExtensions parameterType) ''...'' ''[]''))))"

fun mapE :: "('a \<Rightarrow> error + 'b) \<Rightarrow> 'a list \<Rightarrow> error + 'b list" where
  "mapE f [] = Inr []"
| "mapE f (x # xs) =
     (case f x of
        Inl e \<Rightarrow> Inl e
      | Inr y \<Rightarrow> (case mapE f xs of Inl e \<Rightarrow> Inl e | Inr ys \<Rightarrow> Inr (y # ys)))"

definition getParameterTypesFromMethodDeclaration ::
    "string \<Rightarrow> (string, string) jsmap \<Rightarrow> error + string list" where
  "getParameterTypesFromMethodDeclaration methodDeclaration typeExtensions =
     (case at (split methodDeclaration ''('') 1 of
        None \<Rightarrow> Inl TypeError
      | Some afterOpen \<Rightarrow>
          (case splitHead afterOpen '')'' of
             None \<Rightarrow> Inl TypeError
           | Some inner \<Rightarrow>
               (let parameterTypes = split inner '','';
                    parameterTypes = (if at parameterTypes 0 = Some [] then [] else parameterTypes)
                in mapE (parameterTypeOf typeExtensions) parameterTypes)))"

subsection \<open>Generic type extensions of the classes of a text\<close>

fun addExtensions :: "string list \<Rightarrow> (string, string) jsmap \<Rightarrow> (string, string) jsmap" where
  "addExtensions [] typeExtensions = typeExtensions"
| "addExtensions (extension # extensions) typeExtensions =
     addExtensions extensions
       (case split (trim extension) '' '' of
          [a, e, b] \<Rightarrow> if e = ''extends'' then mapSet typeExtensions a b else typeExtensions
        | _ \<Rightarrow> typeExtensions)"

fun classExtensions ::
    "(string \<times> string option) list \<Rightarrow> (string, string) jsmap \<Rightarrow> (string, string) jsmap" where
  "classExtensions [] typeExtensions = typeExtensions"
| "classExtensions ((m, g) # matches) typeExtensions =
     classExtensions matches
       (case g of
          None \<Rightarrow> typeExtensions
        | Some generics \<Rightarrow>
            if generics = [] then typeExtensions
            else addExtensions (split generics '','') typeExtensions)"

definition getGenericTypeExtensions :: "string \<Rightarrow> (string, string) jsmap" where
  "getGenericTypeExtensions documentText =
     classExtensions (scanAll classRegex [] documentText) []"


subsection \<open>The change-significance classifier\<close>

text \<open>
  The loop \<open>while ((declarationMatches = regex.exec(text)) !== null)\<close>: every
  declaration found in the text replaces the containing method by its identity
  \<open>name(type1,type2,...)\<close>. Capture group 1 is the name.
\<close>

definition templateText :: "string option \<Rightarrow> string" where
  "templateText v = (case v of None \<Rightarrow> ''undefined'' | Some t \<Rightarrow> t)"

fun declarationsLoop ::
    "(string, string) jsmap \<Rightarrow> (string \<times> string option) list \<Rightarrow> string \<Rightarrow> error + string" where
  "declarationsLoop typeExtensions [] containingMethod = Inr containingMethod"
| "declarationsLoop typeExtensions ((m, g) # declarationMatches) containingMethod =
     (case getParameterTypesFromMethodDeclaration m typeExtensions of
        Inl e \<Rightarrow> Inl e
      | Inr types \<Rightarrow>
          declarationsLoop typeExtensions declarationMatches
            (templateText g @ ''('' @ join '','' types @ '')''))"

definition lastDeclaration :: "(string, string) jsmap \<Rightarrow> string \<Rightarrow> string \<Rightarrow> error + string" where
  "lastDeclaration typeExtensions text containingMethod =
     declarationsLoop typeExtensions (scanAll methodDeclarationRegex [] text) containingMethod"

text \<open>The loop over the segments before the current one (lines 89 to 97).\<close>

fun previousPartsLoop ::
    "(string, string) jsmap \<Rightarrow> LineDiff list \<Rightarrow> string \<Rightarrow> error + string" where
  "previousPartsLoop typeExtensions [] containingMethod = Inr containingMethod"
| "previousPartsLoop typeExtensions (prevDiffTextPart # parts) containingMethod =
     (case lastDeclaration typeExtensions (diffValue prevDiffTextPart) containingMethod of
        Inl e \<Rightarrow> Inl e
      | Inr containingMethod' \<Rightarrow> previousPartsLoop typeExtensions parts containingMethod')"

text \<open>
  The test of line 107 on one occurrence, and the update of the cause map of lines 108
  to 116.
\<close>

definition methodNameOf :: "string \<Rightarrow> string" where
  "methodNameOf match = trim (templateText (splitHead match ''(''))"

definition occurrenceIsSignificant :: "string list \<Rightarrow> string list \<Rightarrow> string \<Rightarrow> bool" where
  "occurrenceIsSignificant methodWhitelist registry match =
     (let methodName = methodNameOf match in
      methodName \<notin> set methodWhitelist
      \<and> (methodName \<in> set registry \<or> methodName \<in> set [''while'', ''for'']))"

definition addCause ::
    "(string, string list) jsmap \<Rightarrow> string \<Rightarrow> string \<Rightarrow> (string, string list) jsmap" where
  "addCause containingAndCauseMethods containingMethod match =
     (case mapGet containingAndCauseMethods containingMethod of
        Some causeMethods \<Rightarrow>
          if match \<in> set causeMethods then containingAndCauseMethods
          else mapSet containingAndCauseMethods containingMethod (causeMethods @ [match])
      | None \<Rightarrow> mapSet containingAndCauseMethods containingMethod [match])"

text \<open>
  The loop over the occurrences of one segment (lines 98 to 119). Its state is the
  containing method, the cause map and the flag \<open>isSignificant\<close>.
\<close>

fun matchesLoop ::
    "(string, string) jsmap \<Rightarrow> string list \<Rightarrow> string list \<Rightarrow> string \<Rightarrow> string list
      \<Rightarrow> string \<times> (string, string list) jsmap \<times> bool
      \<Rightarrow> error + string \<times> (string, string list) jsmap \<times> bool" where
  "matchesLoop typeExtensions methodWhitelist registry partValue [] acc = Inr acc"
| "matchesLoop typeExtensions methodWhitelist registry partValue (match # matches)
       (containingMethod, causes, isSignificant) =
     (case lastDeclaration typeExtensions (templateText (splitHead partValue match)) containingMethod of
        Inl e \<Rightarrow> Inl e
      | Inr containingMethod' \<Rightarrow>
          matchesLoop typeExtensions methodWhitelist registry partValue matches
            (if occurrenceIsSignificant methodWhitelist registry match
             then (containingMethod', addCause causes containingMethod' match, True)
             else (containingMethod', causes, isSignificant)))"

text \<open>
  The occurrences of a segment: the matches of the significance pattern in the text of
  the segment without its declarations.
\<close>

definition occurrences :: "string \<Rightarrow> string list" where
  "occurrences partValue =
     map fst (scanAll significantCodeChangeRegex [] (stripAll methodDeclarationRegex [] partValue))"

text \<open>
  The loop over the segments (lines 82 to 122); \<open>previous\<close> holds the segments
  already passed, in order.
\<close>

fun partsLoop ::
    "(string, string) jsmap \<Rightarrow> string list \<Rightarrow> string list \<Rightarrow> LineDiff list \<Rightarrow> LineDiff list
      \<Rightarrow> (string, string list) jsmap \<times> bool
      \<Rightarrow> error + (string, string list) jsmap \<times> bool" where
  "partsLoop typeExtensions methodWhitelist registry previous [] acc = Inr acc"
| "partsLoop typeExtensions methodWhitelist registry previous (diffTextPart # parts)
       (causes, isSignificant) =
     (if isChanged diffTextPart \<and> occurrences (diffValue diffTextPart) \<noteq> []
      then
        (case previousPartsLoop typeExtensions previous [] of
           Inl e \<Rightarrow> Inl e
         | Inr containingMethod \<Rightarrow>
             (case matchesLoop typeExtensions methodWhitelist registry (diffValue diffTextPart)
                     (occurrences (diffValue diffTextPart)) (containingMethod, causes, isSignificant) of
                Inl e \<Rightarrow> Inl e
              | Inr (containingMethod', causes', isSignificant') \<Rightarrow>
                  partsLoop typeExtensions methodWhitelist registry (previous @ [diffTextPart]) parts
                    (causes', isSignificant')))
      else partsLoop typeExtensions methodWhitelist registry (previous @ [diffTextPart]) parts
             (causes, isSignificant))"

text \<open>
  The classification of a diff: the cause map \<open>containingAndCauseMethods\<close> and the
  flag \<open>isSignificant\<close> after line 122.
\<close>

definition classifyDiff ::
    "(string, string) jsmap \<Rightarrow> string list \<Rightarrow> string list \<Rightarrow> LineDiff list
      \<Rightarrow> error + (string, string list) jsmap \<times> bool" where
  "classifyDiff typeExtensions methodWhitelist registry diffText =
     partsLoop typeExtensions methodWhitelist registry [] diffText ([], False)"

text \<open>The loop over the cost entries (lines 124 to 132).\<close>

definition methodIdentity :: "InferCostItem \<Rightarrow> string" where
  "methodIdentity item = method_name item @ ''('' @ join '','' (parameterTypes item) @ '')''"

definition setCause :: "nat \<Rightarrow> string list option \<Rightarrow> (nat \<Rightarrow> InferCostItem) \<Rightarrow> nat \<Rightarrow> InferCostItem" where
  "setCause a causeMethods h = h(a := (h a)\<lparr>changeCauseMethods := causeMethods\<rparr>)"

fun attachCauses :: "(string, string list) jsmap \<Rightarrow> nat list \<Rightarrow> state \<Rightarrow> error + state" where
  "attachCauses causes [] st = Inr st"
| "attachCauses causes (a # items) st =
     (let causeMethods = mapGet causes (methodIdentity (heap st a));
          st1 = st\<lparr>heap := setCause a causeMethods (heap st)\<rparr>
      in case mapGet (inferCostHistories st1) (item_id (heap st1 a)) of
           None \<Rightarrow> attachCauses causes items st1
         | Some inferCostHistoryItem \<Rightarrow>
             (case inferCostHistoryItem of
                [] \<Rightarrow> Inl TypeError
              | h # _ \<Rightarrow>
                  attachCauses causes items
                    (let st2 = st1\<lparr>heap := setCause h causeMethods (heap st1)\<rparr>
                     in st2\<lparr>inferCostHistories :=
                              mapSet (inferCostHistories st2) (item_id (heap st2 h))
                                inferCostHistoryItem\<rparr>)))"

text \<open>
  \<open>significantCodeChangeCheck(savedText)\<close>. The diff provider \<open>Diff.diffLines\<close> and
  the configured whitelist are parameters. An empty previous text is as falsy as a
  missing one.
\<close>

definition significantCodeChangeCheck ::
    "(string \<Rightarrow> string \<Rightarrow> LineDiff list) \<Rightarrow> string list \<Rightarrow> string \<Rightarrow> state
      \<Rightarrow> error + bool \<times> state" where
  "significantCodeChangeCheck diffLines methodWhitelist savedText st =
     (case mapGet (savedDocumentTexts st) (activeFileName st) of
        None \<Rightarrow> Inr (False, st)
      | Some previousText \<Rightarrow>
          if previousText = [] then Inr (False, st)
          else
            (case classifyDiff (getGenericTypeExtensions previousText) methodWhitelist
                    (nonConstantMethods st) (diffLines previousText savedText) of
               Inl e \<Rightarrow> Inl e
             | Inr (containingAndCauseMethods, isSignificant) \<Rightarrow>
                 (case currentInferCost st of
                    None \<Rightarrow> Inl TypeError
                  | Some items \<Rightarrow>
                      (case attachCauses containingAndCauseMethods items st of
                         Inl e \<Rightarrow> Inl e
                       | Inr st' \<Rightarrow>
                           Inr (isSignificant,
                                st'\<lparr>inferCosts := mapSet (inferCosts st') (activeFileName st') items,
                                    fired := Suc (fired st')\<rparr>)))))"

section \<open>The cost history of inferController.ts\<close>

text \<open>
  The body of the loop of \<open>updateInferCostHistory\<close> for one cost entry. The history
  read from the map is an array, which is never falsy: the \<open>return\<close> of the source is
  not reachable.
\<close>

definition updateHistoryItem :: "string \<Rightarrow> nat \<Rightarrow> state \<Rightarrow> state" where
  "updateHistoryItem currentTime a st =
     (let costHistory =
            (case mapGet (inferCostHistories st) (item_id (heap st a)) of
               None \<Rightarrow> []
             | Some history \<Rightarrow> history)
      in case costHistory of
           [] \<Rightarrow>
             st\<lparr>heap := (heap st)(a := (heap st a)\<lparr>timestamp := Some currentTime\<rparr>),
                inferCostHistories := mapSet (inferCostHistories st) (item_id (heap st a)) [a]\<rparr>
         | h # older \<Rightarrow>
             if polynomial (exec_cost (heap st h)) = polynomial (exec_cost (heap st a)) then st
             else
               st\<lparr>heap := (heap st)(a := (heap st a)\<lparr>timestamp := Some currentTime\<rparr>),
                  inferCostHistories :=
                    mapSet (inferCostHistories st) (item_id (heap st a)) (a # h # older)\<rparr>)"

fun updateHistoryItems :: "string \<Rightarrow> nat list \<Rightarrow> state \<Rightarrow> state" where
  "updateHistoryItems currentTime [] st = st"
| "updateHistoryItems currentTime (a # items) st =
     updateHistoryItems currentTime items (updateHistoryItem currentTime a st)"


text \<open>The version that walks the cost lists of all files, in the order of the map.\<close>

fun updateHistoryLists :: "string \<Rightarrow> (string \<times> nat list) list \<Rightarrow> state \<Rightarrow> state" where
  "updateHistoryLists currentTime [] st = st"
| "updateHistoryLists currentTime ((fileName, items) # costLists) st =
     updateHistoryLists currentTime costLists (updateHistoryItems currentTime items st)"

definition updateInferCostHistoryAll :: "string \<Rightarrow> state \<Rightarrow> state" where
  "updateInferCostHistoryAll currentTime st = updateHistoryLists currentTime (inferCosts st) st"



section \<open>Notions used in the statements\<close>

text \<open>The history stored for an id; an id without an entry has the empty history.\<close>

definition historyOf :: "state \<Rightarrow> string \<Rightarrow> nat list" where
  "historyOf st k = (case mapGet (inferCostHistories st) k of None \<Rightarrow> [] | Some history \<Rightarrow> history)"

definition execPolynomial :: "state \<Rightarrow> nat \<Rightarrow> string" where
  "execPolynomial st a = polynomial (exec_cost (heap st a))"

definition headDiffers :: "state \<Rightarrow> nat \<Rightarrow> bool" where
  "headDiffers st a =
     (case historyOf st (item_id (heap st a)) of
        [] \<Rightarrow> True
      | h # _ \<Rightarrow> execPolynomial st h \<noteq> execPolynomial st a)"

text \<open>
  For the runs of an analysis: the history of \<open>m\<close> is \<open>settled\<close> at \<open>p\<close> when its
  head has the execution polynomial \<open>p\<close>. \<open>grows m p st st'\<close> relates two states
  between which no entry changed its id or its polynomial, and the history of \<open>m\<close>
  either stayed as it was or got one new head with polynomial \<open>p\<close>, the former when it
  was settled already.
\<close>

definition settled :: "string \<Rightarrow> string \<Rightarrow> state \<Rightarrow> bool" where
  "settled m p st = (case historyOf st m of [] \<Rightarrow> False | h # _ \<Rightarrow> execPolynomial st h = p)"

definition grows :: "string \<Rightarrow> string \<Rightarrow> state \<Rightarrow> state \<Rightarrow> bool" where
  "grows m p st st' =
     ((\<forall>x. item_id (heap st' x) = item_id (heap st x) \<and> execPolynomial st' x = execPolynomial st x)
      \<and> (settled m p st \<longrightarrow> historyOf st' m = historyOf st m)
      \<and> (historyOf st' m = historyOf st m
          \<or> (\<exists>a. historyOf st' m = a # historyOf st m \<and> settled m p st')))"

text \<open>
  The texts recorded in a cause map, and the occurrences of a diff that pass the test of
  line 107: those of the added and removed segments.
\<close>

definition causeTexts :: "(string, string list) jsmap \<Rightarrow> string set" where
  "causeTexts causes = set (concat (map snd causes))"

definition significantOccurrences :: "string list \<Rightarrow> string list \<Rightarrow> LineDiff list \<Rightarrow> string set" where
  "significantOccurrences methodWhitelist registry diffText =
     {match. \<exists>part \<in> set diffText. isChanged part \<and> match \<in> set (occurrences (diffValue part))
        \<and> occurrenceIsSignificant methodWhitelist registry match}"

text \<open>What a call returned, and the notification count it left; \<open>None\<close> when it raised.\<close>

definition returnedValue :: "error + bool \<times> state \<Rightarrow> bool option" where
  "returnedValue r = (case r of Inl e \<Rightarrow> None | Inr (b, st) \<Rightarrow> Some b)"

definition firedAfter :: "error + bool \<times> state \<Rightarrow> nat option" where
  "firedAfter r = (case r of Inl e \<Rightarrow> None | Inr (b, st) \<Rightarrow> Some (fired st))"

text \<open>
  The previous text of the active file, and the classification that a call of
  \<open>significantCodeChangeCheck\<close> computes from it: \<open>None\<close> when the call returns at
  the check of line 75.
\<close>

definition previousTextOf :: "state \<Rightarrow> string option" where
  "previousTextOf st = mapGet (savedDocumentTexts st) (activeFileName st)"

definition classification ::
    "(string \<Rightarrow> string \<Rightarrow> LineDiff list) \<Rightarrow> string list \<Rightarrow> string \<Rightarrow> state
      \<Rightarrow> (error + (string, string list) jsmap \<times> bool) option" where
  "classification diffLines methodWhitelist savedText st =
     (case previousTextOf st of
        None \<Rightarrow> None
      | Some previousText \<Rightarrow>
          if previousText = [] then None
          else Some (classifyDiff (getGenericTypeExtensions previousText) methodWhitelist
                       (nonConstantMethods st) (diffLines previousText savedText)))"

text \<open>
  Well-formed stores. The histories are keyed: the head of the history stored under an
  id is an entry with that id (\<open>updateInferCostHistory\<close> stores every entry under
  its own id). The ids of a cost list identify its methods: entries with the same id have
  the same identity \<open>name(types)\<close>.
\<close>

definition historiesKeyed :: "state \<Rightarrow> bool" where
  "historiesKeyed st =
     list_all (\<lambda>(k, history). case history of [] \<Rightarrow> True | h # _ \<Rightarrow> item_id (heap st h) = k)
       (inferCostHistories st)"

definition idsIdentify :: "state \<Rightarrow> nat list \<Rightarrow> bool" where
  "idsIdentify st items =
     list_all (\<lambda>a. list_all (\<lambda>a'. item_id (heap st a) = item_id (heap st a')
                                \<longrightarrow> methodIdentity (heap st a) = methodIdentity (heap st a')) items)
       items"

text \<open>
  An entry \<open>a\<close> of the cost list touches the addresses that its round of the loop of
  lines 124 to 132 writes: its own, and the head of the history of its id.
\<close>

definition touches :: "state \<Rightarrow> nat \<Rightarrow> nat \<Rightarrow> bool" where
  "touches st a x =
     (x = a \<or> (\<exists>rest. mapGet (inferCostHistories st) (item_id (heap st a)) = Some (x # rest)))"

text \<open>One round of the loop when the histories are keyed by the ids of their heads.\<close>

definition attachHeap :: "(string, string list) jsmap \<Rightarrow> nat \<Rightarrow> state \<Rightarrow> nat \<Rightarrow> InferCostItem" where
  "attachHeap causes a st =
     (let v = mapGet causes (methodIdentity (heap st a)) in
      case mapGet (inferCostHistories st) (item_id (heap st a)) of
        Some (h # rest) \<Rightarrow> setCause h v (setCause a v (heap st))
      | _ \<Rightarrow> setCause a v (heap st))"

text \<open>
  The parameter types as section 4.1 of the specification words them: split the list on
  commas; for each parameter strip the leading modifiers, take the declared type without
  its generic-argument suffix, substitute the bound of a type extension whose key is the
  type without its array suffix, and write a varargs marker as an array marker.
\<close>

definition specParameterType :: "(string, string) jsmap \<Rightarrow> string \<Rightarrow> string" where
  "specParameterType typeExtensions parameter =
     (let parts = dropWhile (\<lambda>part. part \<in> set modifierWords) (split (trim parameter) '' '');
          declared = (case parts of [] \<Rightarrow> [] | part # _ \<Rightarrow> takeWhile (\<lambda>c. c \<noteq> CHR ''<'') part);
          resolved = foldl (\<lambda>t (k, v). if takeWhile (\<lambda>c. c \<noteq> CHR ''['') t = k
                                        then v @ drop (length k) t else t)
                       declared typeExtensions
      in replace resolved ''...'' ''[]'')"

definition specParameterTypes :: "string \<Rightarrow> (string, string) jsmap \<Rightarrow> string list" where
  "specParameterTypes methodDeclaration typeExtensions =
     (let inner = takeWhile (\<lambda>c. c \<noteq> CHR '')'')
                    (drop 1 (dropWhile (\<lambda>c. c \<noteq> CHR ''('') methodDeclaration))
      in if inner = [] then [] else map (specParameterType typeExtensions) (split inner '',''))"

text \<open>The least number of code units that a match of a pattern consumes.\<close>

fun minLen :: "rx \<Rightarrow> nat" where
  "minLen (Cls P) = 1"
| "minLen (Str t) = length t"
| "minLen Eps = 0"
| "minLen (Cat r1 r2) = minLen r1 + minLen r2"
| "minLen (Or r1 r2) = min (minLen r1) (minLen r2)"
| "minLen (Star r) = 0"
| "minLen (LazyStar r) = 0"
| "minLen Bol = 0"
| "minLen (Grp r) = minLen r"
| "minLen (NotBehind r) = 0"

section \<open>Example states\<close>

definition blankItem :: InferCostItem where
  "blankItem = \<lparr>item_id = [], method_name = [], parameterTypes = [],
     loc = \<lparr>file_name = [], lnum = 0\<rparr>,
     alloc_cost = \<lparr>polynomial = [], degree = 0, big_o = []\<rparr>,
     exec_cost = \<lparr>polynomial = [], degree = 0, big_o = []\<rparr>,
     timestamp = None, changeCauseMethods = None\<rparr>"

text \<open>The state of the extension before any file has been analysed.\<close>

definition initialState :: state where
  "initialState = \<lparr>heap = (\<lambda>a. blankItem), activeFileName = ''A.java'', savedDocumentTexts = [],
     currentInferCost = None, inferCosts = [], inferCostHistories = [],
     nonConstantMethods = [], fired = 0\<rparr>"

text \<open>
  A state after one analysis of \<open>A.java\<close>: the method \<open>foo(int)\<close> has one cost
  entry, stored at address 0, and \<open>foo\<close> and \<open>baz\<close> are registered as non-constant.
\<close>

definition fooItem :: InferCostItem where
  "fooItem = \<lparr>item_id = ''A.foo(int):void'', method_name = ''foo'', parameterTypes = [''int''],
     loc = \<lparr>file_name = ''A.java'', lnum = 1\<rparr>,
     alloc_cost = \<lparr>polynomial = ''1'', degree = 0, big_o = ''O(1)''\<rparr>,
     exec_cost = \<lparr>polynomial = ''n'', degree = 1, big_o = ''O(n)''\<rparr>,
     timestamp = None, changeCauseMethods = None\<rparr>"

definition analysedState :: state where
  "analysedState = \<lparr>heap = (\<lambda>a. blankItem)(0 := fooItem), activeFileName = ''A.java'',
     savedDocumentTexts = [(''A.java'', ''void foo(int x) { bar(); }'')],
     currentInferCost = Some [0], inferCosts = [(''A.java'', [0])], inferCostHistories = [],
     nonConstantMethods = [''foo'', ''baz''], fired = 0\<rparr>"

text \<open>
  Scenario A of the specification: one line is changed, so the diff is the removed old
  line followed by the added new line.
\<close>

definition scenarioPrevious :: string where
  "scenarioPrevious = ''void foo(int x) { bar(); }''"

definition scenarioSaved :: string where
  "scenarioSaved = ''void foo(int x) { bar(); baz(); }''"

definition scenarioDiff :: "LineDiff list" where
  "scenarioDiff = [\<lparr>diffValue = scenarioPrevious, diffState = Removed\<rparr>,
                   \<lparr>diffValue = scenarioSaved, diffState = Added\<rparr>]"

text \<open>
  Scenario C of the specification: a \<open>for\<close> loop is added inside the method
  \<open>qux()\<close>; the lines around it are unchanged.
\<close>

definition loopHeader :: string where
  "loopHeader = ''void qux() {'' @ [CHR 0x0A]"

definition loopAdded :: string where
  "loopAdded = ''  for (int i=0;i<n;i++) {}'' @ [CHR 0x0A]"

definition loopFooter :: string where
  "loopFooter = ''}'' @ [CHR 0x0A]"

definition loopPrevious :: string where
  "loopPrevious = loopHeader @ loopFooter"

definition loopSaved :: string where
  "loopSaved = loopHeader @ loopAdded @ loopFooter"

definition loopDiff :: "LineDiff list" where
  "loopDiff = [\<lparr>diffValue = loopHeader, diffState = Unchanged\<rparr>,
               \<lparr>diffValue = loopAdded, diffState = Added\<rparr>,
               \<lparr>diffValue = loopFooter, diffState = Unchanged\<rparr>]"

text \<open>The answers of the diff provider for the two scenarios.\<close>

definition scenarioDiffLines :: "string \<Rightarrow> string \<Rightarrow> LineDiff list" where
  "scenarioDiffLines previousText savedText =
     (if previousText = scenarioPrevious \<and> savedText = scenarioSaved then scenarioDiff
      else if previousText = loopPrevious \<and> savedText = loopSaved then loopDiff
      else [])"

definition loopState :: state where
  "loopState = analysedState\<lparr>savedDocumentTexts := [(''A.java'', loopPrevious)]\<rparr>"

text \<open>
  A state with a history: the entry of \<open>foo(int)\<close> heads the history of its id and
  carries an attribution from an earlier check.
\<close>

definition trackedState :: state where
  "trackedState = analysedState
     \<lparr>heap := (\<lambda>a. blankItem)
        (0 := fooItem\<lparr>timestamp := Some ''t1'', changeCauseMethods := Some [''stale()'']\<rparr>),
      inferCostHistories := [(''A.foo(int):void'', [0])]\<rparr>"

text \<open>
  A change that adds two statements to \<open>foo(int)\<close>. The first added line reads like
  a declaration of a method \<open>Thread\<close> with the parameter \<open>staticRunner\<close>, whose
  only part contains the modifier word \<open>static\<close>. The state carries the attribution
  of an earlier check.
\<close>

definition threadHeader :: string where
  "threadHeader = ''void foo(int x) {'' @ [CHR 0x0A]"

definition threadAdded :: string where
  "threadAdded = ''    new Thread(staticRunner).start();'' @ [CHR 0x0A] @ ''    baz();'' @ [CHR 0x0A]"

definition threadFooter :: string where
  "threadFooter = ''}'' @ [CHR 0x0A]"

definition threadPrevious :: string where
  "threadPrevious = threadHeader @ threadFooter"

definition threadSaved :: string where
  "threadSaved = threadHeader @ threadAdded @ threadFooter"

definition threadDiff :: "LineDiff list" where
  "threadDiff = [\<lparr>diffValue = threadHeader, diffState = Unchanged\<rparr>,
                 \<lparr>diffValue = threadAdded, diffState = Added\<rparr>,
                 \<lparr>diffValue = threadFooter, diffState = Unchanged\<rparr>]"

definition threadDiffLines :: "string \<Rightarrow> string \<Rightarrow> LineDiff list" where
  "threadDiffLines previousText savedText =
     (if previousText = threadPrevious \<and> savedText = threadSaved then threadDiff else [])"

definition threadState :: state where
  "threadState = trackedState\<lparr>savedDocumentTexts := [(''A.java'', threadPrevious)]\<rparr>"

section \<open>Properties of the helpers\<close>

lemma mapGet_mapSet: "mapGet (mapSet m k v) k' = (if k' = k then Some v else mapGet m k')"
  by (induction m) auto

lemma mapSet_same: "mapGet m k = Some v \<Longrightarrow> mapSet m k v = m"
  by (induction m) (auto split: if_splits)

lemma splice_remove1:
  "(case arrayIndexOf registry name of None \<Rightarrow> registry | Some i \<Rightarrow> splice1 i registry)
     = remove1 name registry"
  by (induction registry) (auto simp: splice1_def split: option.splits)

lemma removeMethods_filter:
  "filter (\<lambda>n. n \<notin> set names) (removeMethods names registry) = filter (\<lambda>n. n \<notin> set names) registry"
proof (induction names arbitrary: registry)
  case Nil
  show ?case by simp
next
  case (Cons name names)
  have keep: "filter (\<lambda>n. n \<notin> set (name # names)) (remove1 name registry)
      = filter (\<lambda>n. n \<notin> set (name # names)) registry"
    by (induction registry) auto
  have "filter (\<lambda>n. n \<notin> set (name # names)) (removeMethods names (remove1 name registry))
      = filter (\<lambda>n. n \<noteq> name) (filter (\<lambda>n. n \<notin> set names) (removeMethods names (remove1 name registry)))"
    by (simp add: conj_commute)
  also have "\<dots> = filter (\<lambda>n. n \<noteq> name) (filter (\<lambda>n. n \<notin> set names) (remove1 name registry))"
    by (simp only: Cons.IH)
  also have "\<dots> = filter (\<lambda>n. n \<notin> set (name # names)) (remove1 name registry)"
    by (simp add: conj_commute)
  finally show ?case
    by (simp only: removeMethods.simps splice_remove1 keep)
qed

lemma removeMethods_subset: "set (removeMethods names registry) \<subseteq> set registry"
proof (induction names arbitrary: registry)
  case Nil
  show ?case by simp
next
  case (Cons name names)
  have "set (removeMethods names (remove1 name registry)) \<subseteq> set (remove1 name registry)"
    by (rule Cons.IH)
  also have "\<dots> \<subseteq> set registry" by (rule set_remove1_subset)
  finally show ?case by (simp only: removeMethods.simps splice_remove1)
qed

lemma splitGo_char:
  "splitGo [c] acc s =
     (rev acc @ takeWhile (\<lambda>x. x \<noteq> c) s) #
     (case dropWhile (\<lambda>x. x \<noteq> c) s of [] \<Rightarrow> [] | _ # r \<Rightarrow> splitGo [c] [] r)"
  by (induction s arbitrary: acc) (auto simp: startsWith_def)

lemma split_char:
  "split s [c] =
     takeWhile (\<lambda>x. x \<noteq> c) s #
     (case dropWhile (\<lambda>x. x \<noteq> c) s of [] \<Rightarrow> [] | _ # r \<Rightarrow> split r [c])"
proof -
  have "split s [c] = splitGo [c] [] s"
    by (simp add: split_def)
  also have "\<dots> = takeWhile (\<lambda>x. x \<noteq> c) s #
     (case dropWhile (\<lambda>x. x \<noteq> c) s of [] \<Rightarrow> [] | _ # r \<Rightarrow> splitGo [c] [] r)"
    by (subst splitGo_char) simp
  also have "\<dots> = takeWhile (\<lambda>x. x \<noteq> c) s #
     (case dropWhile (\<lambda>x. x \<noteq> c) s of [] \<Rightarrow> [] | _ # r \<Rightarrow> split r [c])"
  proof -
    have eq: "\<And>r. splitGo [c] [] r = split r [c]"
      by (simp add: split_def)
    show ?thesis
      by (simp only: eq)
  qed
  finally show ?thesis .
qed

lemma splitHead_char: "splitHead s [c] = Some (takeWhile (\<lambda>x. x \<noteq> c) s)"
  by (simp add: splitHead_def, subst split_char, simp)

lemma takeWhile_until: "c \<notin> set pre \<Longrightarrow> takeWhile (\<lambda>x. x \<noteq> c) (pre @ c # r) = pre"
  by (induction pre) auto

lemma dropWhile_until: "c \<notin> set pre \<Longrightarrow> dropWhile (\<lambda>x. x \<noteq> c) (pre @ c # r) = c # r"
  by (induction pre) auto

section \<open>The registry of non-constant methods\<close>

text \<open>
  C9: \<open>resetNonConstantMethods\<close> empties the registry and changes nothing else.
  \<open>resetNonConstantMethodsForFile\<close> changes the registry only, removes nothing but
  names of the current cost list, and keeps every registered name that no current cost
  entry carries (in the same order and the same number of times).
\<close>

theorem registry_resets:
  "resetNonConstantMethods st = st\<lparr>nonConstantMethods := []\<rparr>
   \<and> (currentInferCost st = Some items \<longrightarrow>
        (\<exists>registry'.
           resetNonConstantMethodsForFile st = Inr (st\<lparr>nonConstantMethods := registry'\<rparr>)
           \<and> set registry' \<subseteq> set (nonConstantMethods st)
           \<and> (\<forall>name \<in> set (nonConstantMethods st).
                 name \<notin> set (map (\<lambda>a. method_name (heap st a)) items) \<longrightarrow> name \<in> set registry')
           \<and> filter (\<lambda>name. name \<notin> set (map (\<lambda>a. method_name (heap st a)) items)) registry'
               = filter (\<lambda>name. name \<notin> set (map (\<lambda>a. method_name (heap st a)) items))
                   (nonConstantMethods st)))"
proof (intro conjI impI)
  show "resetNonConstantMethods st = st\<lparr>nonConstantMethods := []\<rparr>"
    by (simp add: resetNonConstantMethods_def)
next
  assume items: "currentInferCost st = Some items"
  define names where "names = map (\<lambda>a. method_name (heap st a)) items"
  define registry' where "registry' = removeMethods names (nonConstantMethods st)"
  have f: "filter (\<lambda>n. n \<notin> set names) registry' = filter (\<lambda>n. n \<notin> set names) (nonConstantMethods st)"
    unfolding registry'_def by (rule removeMethods_filter)
  have kept: "\<forall>name \<in> set (nonConstantMethods st). name \<notin> set names \<longrightarrow> name \<in> set registry'"
  proof (intro ballI impI)
    fix name assume "name \<in> set (nonConstantMethods st)" "name \<notin> set names"
    then have "name \<in> set (filter (\<lambda>n. n \<notin> set names) (nonConstantMethods st))" by simp
    then have "name \<in> set (filter (\<lambda>n. n \<notin> set names) registry')" by (simp only: f)
    then show "name \<in> set registry'" by simp
  qed
  have "resetNonConstantMethodsForFile st = Inr (st\<lparr>nonConstantMethods := registry'\<rparr>)"
    by (simp add: resetNonConstantMethodsForFile_def items registry'_def names_def)
  moreover have "set registry' \<subseteq> set (nonConstantMethods st)"
    unfolding registry'_def by (rule removeMethods_subset)
  ultimately show "\<exists>registry'.
           resetNonConstantMethodsForFile st = Inr (st\<lparr>nonConstantMethods := registry'\<rparr>)
           \<and> set registry' \<subseteq> set (nonConstantMethods st)
           \<and> (\<forall>name \<in> set (nonConstantMethods st).
                 name \<notin> set (map (\<lambda>a. method_name (heap st a)) items) \<longrightarrow> name \<in> set registry')
           \<and> filter (\<lambda>name. name \<notin> set (map (\<lambda>a. method_name (heap st a)) items)) registry'
               = filter (\<lambda>name. name \<notin> set (map (\<lambda>a. method_name (heap st a)) items))
                   (nonConstantMethods st)"
    using kept f unfolding names_def by blast
qed

theorem registry_resets_witness:
  "resetNonConstantMethods analysedState = analysedState\<lparr>nonConstantMethods := []\<rparr>
   \<and> (\<exists>registry'.
          resetNonConstantMethodsForFile analysedState
            = Inr (analysedState\<lparr>nonConstantMethods := registry'\<rparr>)
          \<and> ''baz'' \<in> set registry')"
proof -
  have c: "currentInferCost analysedState = Some [0]"
    by (simp add: analysedState_def)
  have r: "''baz'' \<in> set (nonConstantMethods analysedState)"
    by (simp add: analysedState_def)
  have n: "''baz'' \<notin> set (map (\<lambda>a. method_name (heap analysedState a)) [0])"
    by (simp add: analysedState_def fooItem_def)
  from registry_resets [of analysedState "[0]"] c r n show ?thesis
    by blast
qed

section \<open>The classifier without a previous text\<close>

text \<open>
  C4: when no previous text is stored for the active file, \<open>significantCodeChangeCheck\<close>
  returns \<open>false\<close> and leaves the whole state as it was: cost entries, histories, cause
  attributions and the notification count.
\<close>

theorem no_snapshot_returns_false:
  "mapGet (savedDocumentTexts st) (activeFileName st) = None
   \<Longrightarrow> significantCodeChangeCheck diffLines methodWhitelist savedText st = Inr (False, st)"
  by (simp add: significantCodeChangeCheck_def)

theorem no_snapshot_returns_false_witness:
  "significantCodeChangeCheck (\<lambda>p n. []) [] ''class A {}'' initialState = Inr (False, initialState)"
  using no_snapshot_returns_false [of initialState "\<lambda>p n. []" "[]" "''class A {}''"]
  by (simp add: initialState_def)

section \<open>Parameter types\<close>

text \<open>
  A declaration whose first opening parenthesis is followed at once by the closing one
  has the empty sequence of parameter types (and so not the sequence that holds one
  empty string).
\<close>

theorem empty_parameter_list:
  "CHR ''('' \<notin> set pre
   \<Longrightarrow> getParameterTypesFromMethodDeclaration (pre @ ''()'' @ post) typeExtensions = Inr []"
proof -
  assume pre: "CHR ''('' \<notin> set pre"
  have tw: "takeWhile (\<lambda>x. x \<noteq> CHR ''('') (pre @ CHR ''('' # CHR '')'' # post) = pre"
    using pre by (rule takeWhile_until)
  have dw: "dropWhile (\<lambda>x. x \<noteq> CHR ''('') (pre @ CHR ''('' # CHR '')'' # post)
      = CHR ''('' # CHR '')'' # post"
    using pre by (rule dropWhile_until)
  have "split (pre @ ''()'' @ post) ''('' = pre # split ('')'' @ post) ''(''"
    by (subst split_char) (simp add: tw dw)
  moreover have "at (split ('')'' @ post) ''('') 0 = Some ('')'' @ takeWhile (\<lambda>x. x \<noteq> CHR ''('') post)"
    by (subst split_char) simp
  ultimately have a1: "at (split (pre @ CHR ''('' # CHR '')'' # post) ''('') (Suc 0)
      = Some ('')'' @ takeWhile (\<lambda>x. x \<noteq> CHR ''('') post)"
    by simp
  have a2: "splitHead ('')'' @ takeWhile (\<lambda>x. x \<noteq> CHR ''('') post) '')'' = Some []"
    by (simp add: splitHead_char)
  have a3: "split [] '','' = [[]]"
    by (simp add: split_def)
  show ?thesis
    by (simp add: getParameterTypesFromMethodDeclaration_def a1 splitHead_char a3 Let_def)
qed

theorem empty_parameter_list_witness:
  "getParameterTypesFromMethodDeclaration ''public static void main()'' [(''A'', ''B'')] = Inr []"
  using empty_parameter_list [of "''public static void main''" "[]" "[(''A'', ''B'')]"]
  by simp

text \<open>
  C7: a declaration whose parameter list is empty should have the empty sequence of
  parameter types, never the sequence that holds one empty string. The code does not
  give it to every such declaration: it tests the first piece of the list for the empty
  string (line 144) before it trims the pieces (line 148). For \<open>void foo( )\<close>, which
  the declaration pattern matches and whose parameter list is empty, the first piece is
  a blank, and the result is the sequence that holds one empty string.
\<close>

theorem blank_parameter_list_gives_empty_type:
  "scanAll methodDeclarationRegex [] ''void foo( )'' = [(''void foo( )'', Some ''foo'')]
   \<and> getParameterTypesFromMethodDeclaration ''void foo( )'' [] = Inr [[]]"
  by code_simp

section \<open>The cost history\<close>

lemma historyOf_mapSet:
  "historyOf (st\<lparr>heap := hp, inferCostHistories := mapSet (inferCostHistories st) k v\<rparr>) k'
     = (if k' = k then v else historyOf st k')"
  by (simp add: historyOf_def mapGet_mapSet)

lemma updateHistoryItem_changed:
  assumes "headDiffers st a"
  shows "updateHistoryItem currentTime a st =
     st\<lparr>heap := (heap st)(a := (heap st a)\<lparr>timestamp := Some currentTime\<rparr>),
        inferCostHistories := mapSet (inferCostHistories st) (item_id (heap st a))
          (a # historyOf st (item_id (heap st a)))\<rparr>"
  using assms
  by (auto simp: updateHistoryItem_def headDiffers_def historyOf_def execPolynomial_def Let_def
      split: option.splits list.splits)

lemma updateHistoryItem_unchanged:
  assumes "\<not> headDiffers st a"
  shows "updateHistoryItem currentTime a st = st"
  using assms
  by (auto simp: updateHistoryItem_def headDiffers_def historyOf_def execPolynomial_def Let_def
      split: option.splits list.splits)

lemma updateHistoryItem_costs:
  "item_id (heap (updateHistoryItem currentTime a st) x) = item_id (heap st x)
   \<and> execPolynomial (updateHistoryItem currentTime a st) x = execPolynomial st x"
  by (cases "headDiffers st a")
     (simp_all add: updateHistoryItem_changed updateHistoryItem_unchanged execPolynomial_def)

lemma settled_cong:
  "\<forall>x. execPolynomial st' x = execPolynomial st x \<Longrightarrow> historyOf st' m = historyOf st m
   \<Longrightarrow> settled m p st' = settled m p st"
  by (simp add: settled_def split: list.splits)

lemma grows_refl: "grows m p st st"
  by (simp add: grows_def)

lemma grows_trans:
  assumes "grows m p st st1" "grows m p st1 st2"
  shows "grows m p st st2"
proof -
  have costs1: "\<forall>x. execPolynomial st1 x = execPolynomial st x"
    and costs2: "\<forall>x. execPolynomial st2 x = execPolynomial st1 x"
    using assms by (simp_all add: grows_def)
  have ids: "\<forall>x. item_id (heap st2 x) = item_id (heap st x) \<and> execPolynomial st2 x = execPolynomial st x"
    using assms by (simp add: grows_def)
  have keep: "settled m p st \<longrightarrow> historyOf st2 m = historyOf st m"
  proof
    assume s: "settled m p st"
    then have h1: "historyOf st1 m = historyOf st m" using assms(1) by (simp add: grows_def)
    then have "settled m p st1" using s settled_cong [OF costs1 h1] by simp
    then have "historyOf st2 m = historyOf st1 m" using assms(2) by (simp add: grows_def)
    then show "historyOf st2 m = historyOf st m" using h1 by simp
  qed
  have step: "historyOf st2 m = historyOf st m
          \<or> (\<exists>a. historyOf st2 m = a # historyOf st m \<and> settled m p st2)"
  proof (cases "historyOf st1 m = historyOf st m")
    case True
    then show ?thesis using assms(2) by (auto simp: grows_def)
  next
    case False
    then obtain a where a: "historyOf st1 m = a # historyOf st m" and s1: "settled m p st1"
      using assms(1) by (auto simp: grows_def)
    then have h2: "historyOf st2 m = historyOf st1 m" using assms(2) by (simp add: grows_def)
    then have "settled m p st2" using s1 settled_cong [OF costs2 h2] by simp
    then show ?thesis using a h2 by simp
  qed
  show ?thesis unfolding grows_def using ids keep step by blast
qed

lemma grows_item:
  assumes "item_id (heap st a) = m \<longrightarrow> execPolynomial st a = p"
  shows "grows m p st (updateHistoryItem currentTime a st)"
proof (cases "headDiffers st a")
  case False
  then show ?thesis by (simp add: updateHistoryItem_unchanged grows_refl)
next
  case True
  note upd = updateHistoryItem_changed [OF True, of currentTime]
  have costs: "\<forall>x. item_id (heap (updateHistoryItem currentTime a st) x) = item_id (heap st x)
      \<and> execPolynomial (updateHistoryItem currentTime a st) x = execPolynomial st x"
    by (simp add: updateHistoryItem_costs)
  have hist: "historyOf (updateHistoryItem currentTime a st) m
      = (if m = item_id (heap st a) then a # historyOf st m else historyOf st m)"
    by (simp add: upd historyOf_mapSet)
  show ?thesis
  proof (cases "item_id (heap st a) = m")
    case False
    then show ?thesis unfolding grows_def using costs hist by auto
  next
    case same: True
    then have pa: "execPolynomial st a = p" using assms by simp
    have notsettled: "\<not> settled m p st"
      using True same pa by (auto simp: headDiffers_def settled_def split: list.splits)
    have "settled m p (updateHistoryItem currentTime a st)"
      using hist same pa costs by (simp add: settled_def)
    then show ?thesis unfolding grows_def using costs hist same notsettled by auto
  qed
qed

lemma grows_items:
  assumes "\<forall>a \<in> set items. item_id (heap st a) = m \<longrightarrow> execPolynomial st a = p"
  shows "grows m p st (updateHistoryItems currentTime items st)"
  using assms
proof (induction items arbitrary: st)
  case Nil
  show ?case by (simp add: grows_refl)
next
  case (Cons a items)
  let ?st1 = "updateHistoryItem currentTime a st"
  have g1: "grows m p st ?st1"
    using Cons.prems by (intro grows_item) simp
  have "\<forall>a \<in> set items. item_id (heap ?st1 a) = m \<longrightarrow> execPolynomial ?st1 a = p"
    using Cons.prems by (simp add: updateHistoryItem_costs)
  then have "grows m p ?st1 (updateHistoryItems currentTime items ?st1)"
    by (rule Cons.IH)
  with g1 show ?case by (simp add: grows_trans)
qed



lemma grows_lists:
  assumes "\<forall>(fileName, items) \<in> set costLists. \<forall>a \<in> set items.
             item_id (heap st a) = m \<longrightarrow> execPolynomial st a = p"
  shows "grows m p st (updateHistoryLists currentTime costLists st)"
  using assms
proof (induction costLists arbitrary: st)
  case Nil
  show ?case by (simp add: grows_refl)
next
  case (Cons entry costLists)
  obtain fileName items where entry: "entry = (fileName, items)" by (cases entry)
  let ?st1 = "updateHistoryItems currentTime items st"
  have g1: "grows m p st ?st1"
    using Cons.prems entry by (intro grows_items) simp
  have "\<forall>(fileName, items) \<in> set costLists. \<forall>a \<in> set items.
             item_id (heap ?st1 a) = m \<longrightarrow> execPolynomial ?st1 a = p"
    using Cons.prems g1 by (auto simp: grows_def)
  then have "grows m p ?st1 (updateHistoryLists currentTime costLists ?st1)"
    by (rule Cons.IH)
  with g1 show ?case by (simp add: entry grows_trans)
qed

text \<open>
  The version of \<open>updateInferCostHistory\<close> that walks the cost lists of all files
  behaves in the same way.
\<close>

lemma history_grows_all_files:
  assumes "\<forall>(fileName, items) \<in> set (inferCosts st). \<forall>a \<in> set items.
             item_id (heap st a) = m \<longrightarrow> execPolynomial st a = p"
  shows "length (historyOf (updateInferCostHistoryAll currentTime st) m) \<le> length (historyOf st m) + 1"
proof -
  have "grows m p st (updateInferCostHistoryAll currentTime st)"
    unfolding updateInferCostHistoryAll_def using assms by (rule grows_lists)
  then show ?thesis by (auto simp: grows_def)
qed



section \<open>The classification of a diff\<close>

lemma causeTexts_Nil: "causeTexts [] = {}"
  by (simp add: causeTexts_def)

lemma causeTexts_Cons: "causeTexts ((k, v) # causes) = set v \<union> causeTexts causes"
  by (simp add: causeTexts_def)

lemma causeTexts_mapSet_new:
  "mapGet causes k = None \<Longrightarrow> causeTexts (mapSet causes k v) = causeTexts causes \<union> set v"
proof (induction causes)
  case Nil
  show ?case by (simp add: causeTexts_Nil causeTexts_Cons)
next
  case (Cons entry causes)
  obtain k' v' where entry: "entry = (k', v')" by (cases entry)
  from Cons.prems entry have ne: "k' \<noteq> k" and rest: "mapGet causes k = None"
    by (auto split: if_splits)
  show ?case
    using ne Cons.IH [OF rest] by (auto simp: entry causeTexts_Cons)
qed

lemma causeTexts_mapSet_extend:
  "mapGet causes k = Some old \<Longrightarrow> causeTexts (mapSet causes k (old @ new)) = causeTexts causes \<union> set new"
proof (induction causes)
  case Nil
  then show ?case by simp
next
  case (Cons entry causes)
  obtain k' v' where entry: "entry = (k', v')" by (cases entry)
  show ?case
  proof (cases "k' = k")
    case True
    with Cons.prems entry have "v' = old" by simp
    with True show ?thesis by (auto simp: entry causeTexts_Cons)
  next
    case False
    with Cons.prems entry have "mapGet causes k = Some old" by simp
    from Cons.IH [OF this] False show ?thesis by (auto simp: entry causeTexts_Cons)
  qed
qed

lemma causeTexts_mapGet:
  "mapGet causes k = Some old \<Longrightarrow> set old \<subseteq> causeTexts causes"
proof (induction causes)
  case Nil
  then show ?case by simp
next
  case (Cons entry causes)
  obtain k' v' where entry: "entry = (k', v')" by (cases entry)
  show ?case
  proof (cases "k' = k")
    case True
    with Cons.prems entry have "v' = old" by simp
    then show ?thesis by (auto simp: entry causeTexts_Cons)
  next
    case False
    with Cons.prems entry have "mapGet causes k = Some old" by simp
    from Cons.IH [OF this] show ?thesis by (auto simp: entry causeTexts_Cons)
  qed
qed

lemma causeTexts_addCause:
  "causeTexts (addCause causes k match) = insert match (causeTexts causes)"
proof (cases "mapGet causes k")
  case None
  then show ?thesis by (simp add: addCause_def causeTexts_mapSet_new)
next
  case (Some old)
  show ?thesis
  proof (cases "match \<in> set old")
    case True
    then have "match \<in> causeTexts causes" using causeTexts_mapGet [OF Some] by blast
    then show ?thesis using Some True by (auto simp: addCause_def)
  next
    case False
    then show ?thesis using Some by (simp add: addCause_def causeTexts_mapSet_extend)
  qed
qed

lemma matchesLoop_result:
  "matchesLoop te wl reg v ms (cm, causes, sig) = Inr (cm', causes', sig') \<Longrightarrow>
     sig' = (sig \<or> (\<exists>m \<in> set ms. occurrenceIsSignificant wl reg m))
     \<and> causeTexts causes' = causeTexts causes \<union> {m \<in> set ms. occurrenceIsSignificant wl reg m}"
proof (induction ms arbitrary: cm causes sig)
  case Nil
  then show ?case by simp
next
  case (Cons m ms)
  from Cons.prems obtain cm1 where
    d: "lastDeclaration te (templateText (splitHead v m)) cm = Inr cm1"
    by (auto split: sum.splits)
  show ?case
  proof (cases "occurrenceIsSignificant wl reg m")
    case True
    with Cons.prems d have
      "matchesLoop te wl reg v ms (cm1, addCause causes cm1 m, True) = Inr (cm', causes', sig')"
      by simp
    from Cons.IH [OF this] True show ?thesis
      by (auto simp: causeTexts_addCause)
  next
    case False
    with Cons.prems d have
      "matchesLoop te wl reg v ms (cm1, causes, sig) = Inr (cm', causes', sig')"
      by simp
    from Cons.IH [OF this] False show ?thesis
      by auto
  qed
qed

lemma significantOccurrences_Nil: "significantOccurrences wl reg [] = {}"
  by (simp add: significantOccurrences_def)

lemma significantOccurrences_Cons:
  "significantOccurrences wl reg (p # parts) =
     (if isChanged p then {m \<in> set (occurrences (diffValue p)). occurrenceIsSignificant wl reg m} else {})
     \<union> significantOccurrences wl reg parts"
  by (auto simp: significantOccurrences_def)

lemma partsLoop_result:
  "partsLoop te wl reg previous parts (causes, sig) = Inr (causes', sig') \<Longrightarrow>
     sig' = (sig \<or> significantOccurrences wl reg parts \<noteq> {})
     \<and> causeTexts causes' = causeTexts causes \<union> significantOccurrences wl reg parts"
proof (induction parts arbitrary: previous causes sig)
  case Nil
  then show ?case by (simp add: significantOccurrences_Nil)
next
  case (Cons p parts)
  show ?case
  proof (cases "isChanged p \<and> occurrences (diffValue p) \<noteq> []")
    case False
    with Cons.prems have
      "partsLoop te wl reg (previous @ [p]) parts (causes, sig) = Inr (causes', sig')"
      by auto
    from Cons.IH [OF this] False show ?thesis
      by (auto simp: significantOccurrences_Cons)
  next
    case True
    with Cons.prems obtain cm cm1 causes1 sig1 where
      m: "matchesLoop te wl reg (diffValue p) (occurrences (diffValue p)) (cm, causes, sig)
            = Inr (cm1, causes1, sig1)"
      and r: "partsLoop te wl reg (previous @ [p]) parts (causes1, sig1) = Inr (causes', sig')"
      by (auto split: sum.splits)
    from matchesLoop_result [OF m] Cons.IH [OF r] True show ?thesis
      by (auto simp: significantOccurrences_Cons)
  qed
qed

lemma classifyDiff_result:
  assumes "classifyDiff te wl reg diffText = Inr (causes, sig)"
  shows "sig = (significantOccurrences wl reg diffText \<noteq> {})"
    and "causeTexts causes = significantOccurrences wl reg diffText"
  using partsLoop_result [OF assms [unfolded classifyDiff_def]]
  by (simp_all add: causeTexts_Nil)


lemma scenario_extensions: "getGenericTypeExtensions scenarioPrevious = []"
  by code_simp

lemma scenario_occurrences:
  "occurrences scenarioPrevious = [''bar()'']"
  "occurrences scenarioSaved = [''bar()'', ''baz()'']"
  by code_simp+

lemma scenario_declarations:
  "lastDeclaration [] scenarioPrevious cm = Inr ''foo(int)''"
  "lastDeclaration [] (templateText (splitHead scenarioPrevious ''bar()'')) cm = Inr ''foo(int)''"
  "lastDeclaration [] (templateText (splitHead scenarioSaved ''bar()'')) cm = Inr ''foo(int)''"
  "lastDeclaration [] (templateText (splitHead scenarioSaved ''baz()'')) cm = Inr ''foo(int)''"
  by code_simp+

lemma scenario_names:
  "methodNameOf ''bar()'' = ''bar''"
  "methodNameOf ''baz()'' = ''baz''"
  by code_simp+

lemma scenario_A:
  assumes "''baz'' \<in> set registry" "''bar'' \<notin> set registry"
  shows "classifyDiff (getGenericTypeExtensions scenarioPrevious) [] registry scenarioDiff
      = Inr ([(''foo(int)'', [''baz()''])], True)"
  using assms
  by (simp add: classifyDiff_def scenarioDiff_def scenario_extensions isChanged_def
      scenario_occurrences scenario_declarations occurrenceIsSignificant_def scenario_names
      addCause_def)

lemma scenario_B:
  assumes "''baz'' \<in> set methodWhitelist" "''bar'' \<notin> set registry"
  shows "classifyDiff (getGenericTypeExtensions scenarioPrevious) methodWhitelist registry scenarioDiff
      = Inr ([], False)"
  using assms
  by (simp add: classifyDiff_def scenarioDiff_def scenario_extensions isChanged_def
      scenario_occurrences scenario_declarations occurrenceIsSignificant_def scenario_names
      addCause_def)

lemma loop_extensions: "getGenericTypeExtensions loopPrevious = []"
  by code_simp

lemma loop_occurrences:
  "occurrences loopAdded = [''for (int i=0;i<n;i++)'']"
  by code_simp

lemma loop_declarations:
  "lastDeclaration [] loopHeader cm = Inr ''qux()''"
  "lastDeclaration [] (templateText (splitHead loopAdded ''for (int i=0;i<n;i++)'')) cm = Inr cm"
  by code_simp+

lemma loop_name: "methodNameOf ''for (int i=0;i<n;i++)'' = ''for''"
  by code_simp

lemma scenario_C:
  assumes "''for'' \<notin> set methodWhitelist"
  shows "classifyDiff (getGenericTypeExtensions loopPrevious) methodWhitelist registry loopDiff
      = Inr ([(''qux()'', [''for (int i=0;i<n;i++)''])], True)"
  using assms
  by (simp add: classifyDiff_def loopDiff_def loop_extensions isChanged_def
      loop_occurrences loop_declarations occurrenceIsSignificant_def loop_name
      addCause_def)

lemma scenario_C_whitelisted:
  assumes "''for'' \<in> set methodWhitelist"
  shows "classifyDiff (getGenericTypeExtensions loopPrevious) methodWhitelist registry loopDiff
      = Inr ([], False)"
  using assms
  by (simp add: classifyDiff_def loopDiff_def loop_extensions isChanged_def
      loop_occurrences loop_declarations occurrenceIsSignificant_def loop_name
      addCause_def)

lemma attachCauses_frame:
  "attachCauses causes items st = Inr st' \<Longrightarrow>
     fired st' = fired st \<and> activeFileName st' = activeFileName st
     \<and> savedDocumentTexts st' = savedDocumentTexts st
     \<and> currentInferCost st' = currentInferCost st
     \<and> inferCosts st' = inferCosts st
     \<and> nonConstantMethods st' = nonConstantMethods st"
proof (induction items arbitrary: st)
  case Nil
  then show ?case by simp
next
  case (Cons a items)
  let ?v = "mapGet causes (methodIdentity (heap st a))"
  let ?st1 = "st\<lparr>heap := setCause a ?v (heap st)\<rparr>"
  show ?case
  proof (cases "mapGet (inferCostHistories ?st1) (item_id (heap ?st1 a))")
    case None
    with Cons.prems have "attachCauses causes items ?st1 = Inr st'"
      by (simp add: Let_def)
    from Cons.IH [OF this] show ?thesis by simp
  next
    case (Some hist)
    with Cons.prems obtain h rest where hist: "hist = h # rest"
      by (cases hist) (simp_all add: Let_def)
    let ?st2 = "?st1\<lparr>heap := setCause h ?v (heap ?st1)\<rparr>"
    let ?st3 = "?st2\<lparr>inferCostHistories := mapSet (inferCostHistories ?st2) (item_id (heap ?st2 h)) hist\<rparr>"
    from Cons.prems Some hist have "attachCauses causes items ?st3 = Inr st'"
      by (simp add: Let_def)
    from Cons.IH [OF this] show ?thesis by simp
  qed
qed

lemma check_past_snapshot:
  assumes "mapGet (savedDocumentTexts st) (activeFileName st) = Some previousText"
    and "previousText \<noteq> []"
    and "significantCodeChangeCheck diffLines wl savedText st = Inr (b, st')"
  shows "\<exists>causes items st1.
      classifyDiff (getGenericTypeExtensions previousText) wl (nonConstantMethods st)
          (diffLines previousText savedText) = Inr (causes, b)
      \<and> currentInferCost st = Some items
      \<and> attachCauses causes items st = Inr st1
      \<and> st' = st1\<lparr>inferCosts := mapSet (inferCosts st1) (activeFileName st1) items,
                   fired := Suc (fired st1)\<rparr>"
  using assms
  by (auto simp: significantCodeChangeCheck_def split: sum.splits option.splits)

lemma attachCauses_no_histories:
  "inferCostHistories st = [] \<Longrightarrow> \<exists>st'. attachCauses causes items st = Inr st'"
proof (induction items arbitrary: st)
  case Nil
  show ?case by simp
next
  case (Cons a items)
  let ?st1 = "st\<lparr>heap := setCause a (mapGet causes (methodIdentity (heap st a))) (heap st)\<rparr>"
  have "inferCostHistories ?st1 = []" using Cons.prems by simp
  from Cons.IH [OF this] show ?case using Cons.prems by (simp add: Let_def)
qed

lemma loopState_fields:
  "mapGet (savedDocumentTexts loopState) (activeFileName loopState) = Some loopPrevious"
  "currentInferCost loopState = Some [0]"
  "inferCostHistories loopState = []"
  "nonConstantMethods loopState = [''foo'', ''baz'']"
  by (simp_all add: loopState_def analysedState_def)

lemma loop_texts:
  "loopPrevious \<noteq> []" "loopPrevious \<noteq> scenarioPrevious"
  "scenarioDiffLines loopPrevious loopSaved = loopDiff"
  by (simp_all add: loopPrevious_def loopHeader_def scenarioPrevious_def scenarioDiffLines_def)

text \<open>
  C1, as the code has it: in a call that passes the check for a previous text and
  returns, an occurrence of \<open>while (...)\<close> or \<open>for (...)\<close> in an added or removed
  segment makes the result \<open>true\<close> and is recorded in the cause map, whatever the
  registry holds, provided the word \<open>while\<close> or \<open>for\<close> is not in the whitelist.
\<close>

theorem loops_significant_unless_whitelisted:
  assumes "mapGet (savedDocumentTexts st) (activeFileName st) = Some previousText"
    and "previousText \<noteq> []"
    and "significantCodeChangeCheck diffLines methodWhitelist savedText st = Inr (b, st')"
    and "part \<in> set (diffLines previousText savedText)" and "isChanged part"
    and "match \<in> set (occurrences (diffValue part))"
    and "methodNameOf match = ''while'' \<or> methodNameOf match = ''for''"
    and "methodNameOf match \<notin> set methodWhitelist"
  shows "b \<and> (\<exists>causes. classifyDiff (getGenericTypeExtensions previousText) methodWhitelist
                  (nonConstantMethods st) (diffLines previousText savedText) = Inr (causes, True)
               \<and> match \<in> causeTexts causes)"
proof -
  from check_past_snapshot [OF assms(1-3)] obtain causes where
    c: "classifyDiff (getGenericTypeExtensions previousText) methodWhitelist (nonConstantMethods st)
          (diffLines previousText savedText) = Inr (causes, b)"
    by blast
  have "occurrenceIsSignificant methodWhitelist (nonConstantMethods st) match"
    using assms(7,8) by (auto simp: occurrenceIsSignificant_def Let_def)
  then have m: "match \<in> significantOccurrences methodWhitelist (nonConstantMethods st)
      (diffLines previousText savedText)"
    using assms(4-6) by (auto simp: significantOccurrences_def)
  from classifyDiff_result [OF c] m have "b" and "match \<in> causeTexts causes"
    by auto
  with c show ?thesis by auto
qed

text \<open>
  With \<open>for\<close> in the whitelist, the call of scenario C returns \<open>false\<close>: loops are
  not significant unconditionally.
\<close>

theorem whitelisted_loop_counterexample:
  "returnedValue (significantCodeChangeCheck scenarioDiffLines [''for''] loopSaved loopState) = Some False"
proof -
  have c: "classifyDiff (getGenericTypeExtensions loopPrevious) [''for''] (nonConstantMethods loopState)
      (scenarioDiffLines loopPrevious loopSaved) = Inr ([], False)"
    by (simp add: loop_texts scenario_C_whitelisted)
  obtain st1 where a: "attachCauses [] [0] loopState = Inr st1"
    using attachCauses_no_histories [OF loopState_fields(3)] by blast
  show ?thesis
    by (simp add: significantCodeChangeCheck_def loopState_fields(1,2) loop_texts(1) c a returnedValue_def
        del: attachCauses.simps)
qed

theorem loops_significant_unless_whitelisted_witness:
  "returnedValue (significantCodeChangeCheck scenarioDiffLines [''baz''] loopSaved loopState) = Some True
   \<and> (\<exists>causes. classifyDiff (getGenericTypeExtensions loopPrevious) [''baz'']
                  (nonConstantMethods loopState) (scenarioDiffLines loopPrevious loopSaved) = Inr (causes, True)
         \<and> ''for (int i=0;i<n;i++)'' \<in> causeTexts causes)"
proof -
  have c: "classifyDiff (getGenericTypeExtensions loopPrevious) [''baz''] (nonConstantMethods loopState)
      (scenarioDiffLines loopPrevious loopSaved) = Inr ([(''qux()'', [''for (int i=0;i<n;i++)''])], True)"
    by (simp add: loop_texts scenario_C)
  obtain st1 where a: "attachCauses [(''qux()'', [''for (int i=0;i<n;i++)''])] [0] loopState = Inr st1"
    using attachCauses_no_histories [OF loopState_fields(3)] by blast
  let ?st' = "st1\<lparr>inferCosts := mapSet (inferCosts st1) (activeFileName st1) [0], fired := Suc (fired st1)\<rparr>"
  have r: "significantCodeChangeCheck scenarioDiffLines [''baz''] loopSaved loopState = Inr (True, ?st')"
    by (simp add: significantCodeChangeCheck_def loopState_fields(1,2) loop_texts(1) c a
        del: attachCauses.simps)
  have p: "\<lparr>diffValue = loopAdded, diffState = Added\<rparr> \<in> set (scenarioDiffLines loopPrevious loopSaved)"
    by (simp add: loop_texts loopDiff_def)
  have "True \<and> (\<exists>causes. classifyDiff (getGenericTypeExtensions loopPrevious) [''baz'']
                  (nonConstantMethods loopState) (scenarioDiffLines loopPrevious loopSaved) = Inr (causes, True)
               \<and> ''for (int i=0;i<n;i++)'' \<in> causeTexts causes)"
    by (rule loops_significant_unless_whitelisted [OF loopState_fields(1) loop_texts(1) r p])
       (simp_all add: isChanged_def loop_occurrences loop_name)
  then show ?thesis by (simp add: r returnedValue_def)
qed

text \<open>
  The method name that line 106 extracts from a loop header is the keyword, whatever the
  number of blanks before the parenthesis.
\<close>

lemma trim_word_blanks:
  assumes "w \<noteq> []" "\<not> isWhiteSpace (hd w)" "\<not> isWhiteSpace (last w)"
  shows "trim (w @ replicate n CHR '' '') = w"
proof -
  obtain c cs where w: "w = c # cs" using assms(1) by (cases w) auto
  have front: "dropWhile isWhiteSpace (w @ replicate n CHR '' '') = w @ replicate n CHR '' ''"
    using assms(2) w by simp
  have blank: "\<forall>x \<in> set (replicate n CHR '' ''). isWhiteSpace x"
    by (simp add: isWhiteSpace_def)
  have "rev (w @ replicate n CHR '' '') = replicate n CHR '' '' @ rev w"
    by simp
  moreover have "dropWhile isWhiteSpace (replicate n CHR '' '' @ rev w) = dropWhile isWhiteSpace (rev w)"
    using blank by (simp add: dropWhile_append)
  moreover have "dropWhile isWhiteSpace (rev w) = rev w"
    using assms(1,3) by (cases "rev w") (auto simp: last_rev hd_rev dest: arg_cong [where f = hd])
  ultimately show ?thesis
    by (simp add: trim_def front)
qed

lemma methodNameOf_loop:
  "methodNameOf (''while'' @ replicate n CHR '' '' @ ''('' @ rest) = ''while''"
  "methodNameOf (''for'' @ replicate n CHR '' '' @ ''('' @ rest) = ''for''"
proof -
  have name: "\<And>w. CHR ''('' \<notin> set w \<Longrightarrow>
      methodNameOf (w @ replicate n CHR '' '' @ ''('' @ rest) = trim (w @ replicate n CHR '' '')"
  proof -
    fix w :: string
    assume "CHR ''('' \<notin> set w"
    then have "CHR ''('' \<notin> set (w @ replicate n CHR '' '')" by auto
    then have "takeWhile (\<lambda>x. x \<noteq> CHR ''('') ((w @ replicate n CHR '' '') @ CHR ''('' # rest)
        = w @ replicate n CHR '' ''"
      by (rule takeWhile_until)
    then show "methodNameOf (w @ replicate n CHR '' '' @ ''('' @ rest) = trim (w @ replicate n CHR '' '')"
      by (simp add: methodNameOf_def splitHead_char templateText_def)
  qed
  have tw: "trim (''while'' @ replicate n CHR '' '') = ''while''"
    by (rule trim_word_blanks) (simp_all add: isWhiteSpace_def)
  have mw: "methodNameOf (''while'' @ replicate n CHR '' '' @ ''('' @ rest)
      = trim (''while'' @ replicate n CHR '' '')"
    by (rule name) simp
  show "methodNameOf (''while'' @ replicate n CHR '' '' @ ''('' @ rest) = ''while''"
    by (rule trans [OF mw tw])
  have tf: "trim (''for'' @ replicate n CHR '' '') = ''for''"
    by (rule trim_word_blanks) (simp_all add: isWhiteSpace_def)
  have mf: "methodNameOf (''for'' @ replicate n CHR '' '' @ ''('' @ rest)
      = trim (''for'' @ replicate n CHR '' '')"
    by (rule name) simp
  show "methodNameOf (''for'' @ replicate n CHR '' '' @ ''('' @ rest) = ''for''"
    by (rule trans [OF mf tf])
qed

section \<open>The notification\<close>

text \<open>
  C5, as the code has it: a call that passes the check for a previous text and returns
  has sent the notification exactly once, whatever boolean it returns.
\<close>

theorem notification_fired_once_past_snapshot:
  assumes "mapGet (savedDocumentTexts st) (activeFileName st) = Some previousText"
    and "previousText \<noteq> []"
    and "significantCodeChangeCheck diffLines methodWhitelist savedText st = Inr (b, st')"
  shows "fired st' = Suc (fired st)"
proof -
  from check_past_snapshot [OF assms] obtain causes items st1 where
    a: "attachCauses causes items st = Inr st1"
    and s: "st' = st1\<lparr>inferCosts := mapSet (inferCosts st1) (activeFileName st1) items,
                   fired := Suc (fired st1)\<rparr>"
    by blast
  from attachCauses_frame [OF a] have "fired st1 = fired st" by simp
  with s show ?thesis by simp
qed

theorem notification_fired_once_past_snapshot_witness:
  "firedAfter (significantCodeChangeCheck scenarioDiffLines [] loopSaved loopState)
     = Some (Suc (fired loopState))"
proof -
  have c: "classifyDiff (getGenericTypeExtensions loopPrevious) [] (nonConstantMethods loopState)
      (scenarioDiffLines loopPrevious loopSaved) = Inr ([(''qux()'', [''for (int i=0;i<n;i++)''])], True)"
    by (simp add: loop_texts scenario_C)
  obtain st1 where a: "attachCauses [(''qux()'', [''for (int i=0;i<n;i++)''])] [0] loopState = Inr st1"
    using attachCauses_no_histories [OF loopState_fields(3)] by blast
  let ?st' = "st1\<lparr>inferCosts := mapSet (inferCosts st1) (activeFileName st1) [0], fired := Suc (fired st1)\<rparr>"
  have r: "significantCodeChangeCheck scenarioDiffLines [] loopSaved loopState = Inr (True, ?st')"
    by (simp add: significantCodeChangeCheck_def loopState_fields(1,2) loop_texts(1) c a
        del: attachCauses.simps)
  have f: "fired ?st' = Suc (fired loopState)"
    by (rule notification_fired_once_past_snapshot [OF loopState_fields(1) loop_texts(1) r])
  have "firedAfter (Inr (True, ?st')) = Some (fired ?st')"
    by (simp add: firedAfter_def)
  then show ?thesis
    by (simp only: r f)
qed

text \<open>
  A call that returns at the check for a previous text has sent no notification.
\<close>

theorem notification_not_fired_counterexample:
  "firedAfter (significantCodeChangeCheck scenarioDiffLines [] scenarioSaved initialState)
     = Some (fired initialState)
   \<and> firedAfter (significantCodeChangeCheck scenarioDiffLines [] scenarioSaved initialState)
     \<noteq> Some (Suc (fired initialState))"
  by (simp add: significantCodeChangeCheck_def initialState_def firedAfter_def)

section \<open>Repeating the classification\<close>

lemma setCause_fields:
  "item_id (setCause a v h x) = item_id (h x)"
  "methodIdentity (setCause a v h x) = methodIdentity (h x)"
  by (simp_all add: setCause_def methodIdentity_def)

lemma attachCauses_ids:
  "attachCauses causes items st = Inr st' \<Longrightarrow>
     item_id (heap st' x) = item_id (heap st x)
     \<and> methodIdentity (heap st' x) = methodIdentity (heap st x)"
proof (induction items arbitrary: st)
  case Nil
  then show ?case by simp
next
  case (Cons a items)
  let ?v = "mapGet causes (methodIdentity (heap st a))"
  let ?st1 = "st\<lparr>heap := setCause a ?v (heap st)\<rparr>"
  show ?case
  proof (cases "mapGet (inferCostHistories ?st1) (item_id (heap ?st1 a))")
    case None
    with Cons.prems have "attachCauses causes items ?st1 = Inr st'"
      by (simp add: Let_def)
    from Cons.IH [OF this] show ?thesis by (simp add: setCause_fields)
  next
    case (Some hist)
    with Cons.prems obtain h rest where hist: "hist = h # rest"
      by (cases hist) (simp_all add: Let_def)
    let ?st2 = "?st1\<lparr>heap := setCause h ?v (heap ?st1)\<rparr>"
    let ?st3 = "?st2\<lparr>inferCostHistories := mapSet (inferCostHistories ?st2) (item_id (heap ?st2 h)) hist\<rparr>"
    from Cons.prems Some hist have "attachCauses causes items ?st3 = Inr st'"
      by (simp add: Let_def)
    from Cons.IH [OF this] show ?thesis by (simp add: setCause_fields)
  qed
qed

lemma attachCauses_keeps_nonempty:
  "attachCauses causes items st = Inr st' \<Longrightarrow> mapGet (inferCostHistories st) k \<noteq> Some []
   \<Longrightarrow> mapGet (inferCostHistories st') k \<noteq> Some []"
proof (induction items arbitrary: st)
  case Nil
  then show ?case by simp
next
  case (Cons a items)
  let ?v = "mapGet causes (methodIdentity (heap st a))"
  let ?st1 = "st\<lparr>heap := setCause a ?v (heap st)\<rparr>"
  show ?case
  proof (cases "mapGet (inferCostHistories ?st1) (item_id (heap ?st1 a))")
    case None
    with Cons.prems have "attachCauses causes items ?st1 = Inr st'"
      by (simp add: Let_def)
    from Cons.IH [OF this] Cons.prems(2) show ?thesis by simp
  next
    case (Some hist)
    with Cons.prems obtain h rest where hist: "hist = h # rest"
      by (cases hist) (simp_all add: Let_def)
    let ?st2 = "?st1\<lparr>heap := setCause h ?v (heap ?st1)\<rparr>"
    let ?st3 = "?st2\<lparr>inferCostHistories := mapSet (inferCostHistories ?st2) (item_id (heap ?st2 h)) hist\<rparr>"
    from Cons.prems Some hist have r: "attachCauses causes items ?st3 = Inr st'"
      by (simp add: Let_def)
    have "mapGet (inferCostHistories ?st3) k \<noteq> Some []"
      using Cons.prems(2) hist by (simp add: mapGet_mapSet)
    from Cons.IH [OF r this] show ?thesis .
  qed
qed

lemma attachCauses_leaves_nonempty:
  "attachCauses causes items st = Inr st' \<Longrightarrow>
     \<forall>a \<in> set items. mapGet (inferCostHistories st') (item_id (heap st a)) \<noteq> Some []"
proof (induction items arbitrary: st)
  case Nil
  then show ?case by simp
next
  case (Cons a items)
  let ?v = "mapGet causes (methodIdentity (heap st a))"
  let ?st1 = "st\<lparr>heap := setCause a ?v (heap st)\<rparr>"
  show ?case
  proof (cases "mapGet (inferCostHistories ?st1) (item_id (heap ?st1 a))")
    case None
    with Cons.prems have r: "attachCauses causes items ?st1 = Inr st'"
      by (simp add: Let_def)
    have "mapGet (inferCostHistories ?st1) (item_id (heap st a)) \<noteq> Some []"
      using None by (simp add: setCause_fields)
    from attachCauses_keeps_nonempty [OF r this] Cons.IH [OF r] show ?thesis
      by (simp add: setCause_fields)
  next
    case (Some hist)
    with Cons.prems obtain h rest where hist: "hist = h # rest"
      by (cases hist) (simp_all add: Let_def)
    let ?st2 = "?st1\<lparr>heap := setCause h ?v (heap ?st1)\<rparr>"
    let ?st3 = "?st2\<lparr>inferCostHistories := mapSet (inferCostHistories ?st2) (item_id (heap ?st2 h)) hist\<rparr>"
    from Cons.prems Some hist have r: "attachCauses causes items ?st3 = Inr st'"
      by (simp add: Let_def)
    have "mapGet (inferCostHistories ?st3) (item_id (heap st a)) \<noteq> Some []"
      using Some hist by (simp add: mapGet_mapSet setCause_fields)
    from attachCauses_keeps_nonempty [OF r this] Cons.IH [OF r] show ?thesis
      by (simp add: setCause_fields)
  qed
qed

lemma attachCauses_returns:
  "\<forall>a \<in> set items. mapGet (inferCostHistories st) (item_id (heap st a)) \<noteq> Some []
   \<Longrightarrow> \<exists>st'. attachCauses causes items st = Inr st'"
proof (induction items arbitrary: st)
  case Nil
  show ?case by simp
next
  case (Cons a items)
  let ?v = "mapGet causes (methodIdentity (heap st a))"
  let ?st1 = "st\<lparr>heap := setCause a ?v (heap st)\<rparr>"
  show ?case
  proof (cases "mapGet (inferCostHistories ?st1) (item_id (heap ?st1 a))")
    case None
    have "\<forall>a \<in> set items. mapGet (inferCostHistories ?st1) (item_id (heap ?st1 a)) \<noteq> Some []"
      using Cons.prems by (simp add: setCause_fields)
    from Cons.IH [OF this] None show ?thesis
      by (simp add: Let_def)
  next
    case (Some hist)
    with Cons.prems obtain h rest where hist: "hist = h # rest"
      by (cases hist) (simp_all add: setCause_fields)
    let ?st2 = "?st1\<lparr>heap := setCause h ?v (heap ?st1)\<rparr>"
    let ?st3 = "?st2\<lparr>inferCostHistories := mapSet (inferCostHistories ?st2) (item_id (heap ?st2 h)) hist\<rparr>"
    have "\<forall>a \<in> set items. mapGet (inferCostHistories ?st3) (item_id (heap ?st3 a)) \<noteq> Some []"
      using Cons.prems hist by (simp add: setCause_fields mapGet_mapSet)
    from Cons.IH [OF this] Some hist show ?thesis
      by (simp add: Let_def)
  qed
qed

lemma check_without_snapshot:
  "classification diffLines wl savedText st = None
   \<Longrightarrow> significantCodeChangeCheck diffLines wl savedText st = Inr (False, st)"
  by (auto simp: classification_def previousTextOf_def significantCodeChangeCheck_def
      split: option.splits if_splits)

lemma check_with_snapshot:
  assumes "classification diffLines wl savedText st = Some r"
    and "significantCodeChangeCheck diffLines wl savedText st = Inr (b, st')"
  shows "\<exists>causes items st1. r = Inr (causes, b) \<and> currentInferCost st = Some items
      \<and> attachCauses causes items st = Inr st1
      \<and> st' = st1\<lparr>inferCosts := mapSet (inferCosts st1) (activeFileName st1) items,
                   fired := Suc (fired st1)\<rparr>"
proof -
  from assms(1) obtain previousText where
    p: "mapGet (savedDocumentTexts st) (activeFileName st) = Some previousText"
    and n: "previousText \<noteq> []"
    and r: "r = classifyDiff (getGenericTypeExtensions previousText) wl (nonConstantMethods st)
              (diffLines previousText savedText)"
    by (auto simp: classification_def previousTextOf_def split: option.splits if_splits)
  from check_past_snapshot [OF p n assms(2)] r show ?thesis by auto
qed

lemma check_frame:
  assumes "significantCodeChangeCheck diffLines wl savedText st = Inr (b, st')"
  shows "previousTextOf st' = previousTextOf st \<and> nonConstantMethods st' = nonConstantMethods st
      \<and> currentInferCost st' = currentInferCost st"
proof (cases "classification diffLines wl savedText st")
  case None
  from check_without_snapshot [OF None] assms show ?thesis by simp
next
  case (Some r)
  from check_with_snapshot [OF Some assms] obtain causes items st1 where
    a: "attachCauses causes items st = Inr st1"
    and s: "st' = st1\<lparr>inferCosts := mapSet (inferCosts st1) (activeFileName st1) items,
                   fired := Suc (fired st1)\<rparr>"
    by blast
  from attachCauses_frame [OF a] s show ?thesis
    by (simp add: previousTextOf_def)
qed

lemma classification_inputs:
  "previousTextOf st1 = previousTextOf st2 \<Longrightarrow> nonConstantMethods st1 = nonConstantMethods st2
   \<Longrightarrow> classification diffLines wl savedText st1 = classification diffLines wl savedText st2"
  unfolding classification_def by (simp only:)

lemma check_value:
  assumes "significantCodeChangeCheck diffLines wl savedText st = Inr (b, st')"
  shows "case classification diffLines wl savedText st of
           None \<Rightarrow> b = False
         | Some r \<Rightarrow> (\<exists>causes. r = Inr (causes, b))"
proof (cases "classification diffLines wl savedText st")
  case None
  from check_without_snapshot [OF None] assms show ?thesis by (simp add: None)
next
  case (Some r)
  from check_with_snapshot [OF Some assms] show ?thesis by (auto simp: Some)
qed

lemma check_again:
  assumes "significantCodeChangeCheck diffLines wl savedText st = Inr (b, st')"
  shows "\<exists>st''. significantCodeChangeCheck diffLines wl savedText st' = Inr (b, st'')"
proof (cases "classification diffLines wl savedText st")
  case None
  from check_without_snapshot [OF None] assms show ?thesis by auto
next
  case (Some r)
  from check_with_snapshot [OF Some assms] obtain causes items st1 where
    r: "r = Inr (causes, b)" and i: "currentInferCost st = Some items"
    and a: "attachCauses causes items st = Inr st1"
    and s: "st' = st1\<lparr>inferCosts := mapSet (inferCosts st1) (activeFileName st1) items,
                   fired := Suc (fired st1)\<rparr>"
    by blast
  from Some obtain previousText where
    p: "mapGet (savedDocumentTexts st) (activeFileName st) = Some previousText"
    and n: "previousText \<noteq> []"
    and c: "classifyDiff (getGenericTypeExtensions previousText) wl (nonConstantMethods st)
              (diffLines previousText savedText) = Inr (causes, b)"
    by (auto simp: classification_def previousTextOf_def r split: option.splits if_splits)
  note f = attachCauses_frame [OF a]
  have "\<forall>x \<in> set items. mapGet (inferCostHistories st1) (item_id (heap st1 x)) \<noteq> Some []"
    using attachCauses_leaves_nonempty [OF a] attachCauses_ids [OF a] by simp
  then have "\<forall>x \<in> set items. mapGet (inferCostHistories st') (item_id (heap st' x)) \<noteq> Some []"
    by (simp add: s)
  from attachCauses_returns [OF this] obtain st2 where
    a2: "attachCauses causes items st' = Inr st2"
    by blast
  have p': "mapGet (savedDocumentTexts st') (activeFileName st') = Some previousText"
    using p f by (simp add: s)
  have c': "classifyDiff (getGenericTypeExtensions previousText) wl (nonConstantMethods st')
              (diffLines previousText savedText) = Inr (causes, b)"
    using c f by (simp add: s)
  have i': "currentInferCost st' = Some items"
    using i f by (simp add: s)
  show ?thesis
    by (simp add: significantCodeChangeCheck_def p' n c' i' a2 del: attachCauses.simps)
qed

text \<open>
  C6: the boolean and the cause map of a call depend on the previous text, the saved
  text, the registry and the whitelist only. When a call returns \<open>b\<close>, the same call
  in the state it leaves returns \<open>b\<close> again and computes the same classification; and
  two calls in any two states with the same previous text and registry return the same
  boolean and compute the same classification.
\<close>

theorem classifier_result_repeatable:
  "(significantCodeChangeCheck diffLines methodWhitelist savedText st = Inr (b, st')
      \<longrightarrow> (\<exists>st''. significantCodeChangeCheck diffLines methodWhitelist savedText st' = Inr (b, st''))
          \<and> classification diffLines methodWhitelist savedText st'
              = classification diffLines methodWhitelist savedText st)
   \<and> (previousTextOf st1 = previousTextOf st2 \<and> nonConstantMethods st1 = nonConstantMethods st2
        \<and> significantCodeChangeCheck diffLines methodWhitelist savedText st1 = Inr (b1, st1')
        \<and> significantCodeChangeCheck diffLines methodWhitelist savedText st2 = Inr (b2, st2')
      \<longrightarrow> b1 = b2
          \<and> classification diffLines methodWhitelist savedText st1
              = classification diffLines methodWhitelist savedText st2)"
proof (intro conjI impI)
  assume r: "significantCodeChangeCheck diffLines methodWhitelist savedText st = Inr (b, st')"
  show "\<exists>st''. significantCodeChangeCheck diffLines methodWhitelist savedText st' = Inr (b, st'')"
    using r by (rule check_again)
  show "classification diffLines methodWhitelist savedText st'
      = classification diffLines methodWhitelist savedText st"
    using check_frame [OF r] by (intro classification_inputs) (elim conjE, assumption)+
next
  assume a: "previousTextOf st1 = previousTextOf st2 \<and> nonConstantMethods st1 = nonConstantMethods st2
        \<and> significantCodeChangeCheck diffLines methodWhitelist savedText st1 = Inr (b1, st1')
        \<and> significantCodeChangeCheck diffLines methodWhitelist savedText st2 = Inr (b2, st2')"
  then have e: "classification diffLines methodWhitelist savedText st1
      = classification diffLines methodWhitelist savedText st2"
    by (intro classification_inputs) (elim conjE, assumption)+
  then show "classification diffLines methodWhitelist savedText st1
      = classification diffLines methodWhitelist savedText st2" .
  from a have r1: "significantCodeChangeCheck diffLines methodWhitelist savedText st1 = Inr (b1, st1')"
    and r2: "significantCodeChangeCheck diffLines methodWhitelist savedText st2 = Inr (b2, st2')"
    by blast+
  have v1: "case classification diffLines methodWhitelist savedText st1 of
           None \<Rightarrow> b1 = False | Some r \<Rightarrow> (\<exists>causes. r = Inr (causes, b1))"
    using r1 by (rule check_value)
  have v2: "case classification diffLines methodWhitelist savedText st2 of
           None \<Rightarrow> b2 = False | Some r \<Rightarrow> (\<exists>causes. r = Inr (causes, b2))"
    using r2 by (rule check_value)
  from v1 v2 e show "b1 = b2"
    by (cases "classification diffLines methodWhitelist savedText st2") auto
qed


theorem classifier_result_repeatable_witness:
  "\<exists>st' st''. significantCodeChangeCheck scenarioDiffLines [] loopSaved loopState = Inr (True, st')
      \<and> significantCodeChangeCheck scenarioDiffLines [] loopSaved st' = Inr (True, st'')
      \<and> classification scenarioDiffLines [] loopSaved st'
          = classification scenarioDiffLines [] loopSaved loopState"
proof -
  have c: "classifyDiff (getGenericTypeExtensions loopPrevious) [] (nonConstantMethods loopState)
      (scenarioDiffLines loopPrevious loopSaved) = Inr ([(''qux()'', [''for (int i=0;i<n;i++)''])], True)"
    by (simp add: loop_texts scenario_C)
  obtain st1 where a: "attachCauses [(''qux()'', [''for (int i=0;i<n;i++)''])] [0] loopState = Inr st1"
    using attachCauses_no_histories [OF loopState_fields(3)] by blast
  define st' where
    "st' = st1\<lparr>inferCosts := mapSet (inferCosts st1) (activeFileName st1) [0], fired := Suc (fired st1)\<rparr>"
  have r: "significantCodeChangeCheck scenarioDiffLines [] loopSaved loopState = Inr (True, st')"
    by (simp add: significantCodeChangeCheck_def loopState_fields(1,2) loop_texts(1) c a st'_def
        del: attachCauses.simps)
  from classifier_result_repeatable
    [where diffLines = scenarioDiffLines and methodWhitelist = "[]" and savedText = loopSaved
       and st = loopState and b = True and st' = st', THEN conjunct1, rule_format, OF r]
  obtain st'' where
    "significantCodeChangeCheck scenarioDiffLines [] loopSaved st' = Inr (True, st'')"
    and "classification scenarioDiffLines [] loopSaved st'
          = classification scenarioDiffLines [] loopSaved loopState"
    by blast
  with r show ?thesis by blast
qed

section \<open>The attribution of causes to cost entries\<close>

lemma list_all_mapGet: "list_all P m \<Longrightarrow> mapGet m k = Some v \<Longrightarrow> P (k, v)"
  by (induction m) (auto split: if_splits)

lemma historiesKeyed_head:
  "historiesKeyed st \<Longrightarrow> mapGet (inferCostHistories st) k = Some (h # rest)
   \<Longrightarrow> item_id (heap st h) = k"
  using list_all_mapGet [of _ "inferCostHistories st" k "h # rest"]
  by (fastforce simp: historiesKeyed_def)

lemma historiesKeyed_heap:
  "\<forall>x. item_id (hp x) = item_id (heap st x) \<Longrightarrow> historiesKeyed (st\<lparr>heap := hp\<rparr>) = historiesKeyed st"
  by (auto simp: historiesKeyed_def list_all_iff split: list.splits)

lemma touches_heap:
  "\<forall>x. item_id (hp x) = item_id (heap st x) \<Longrightarrow> touches (st\<lparr>heap := hp\<rparr>) a x = touches st a x"
  by (simp add: touches_def)

lemma attachHeap_ids:
  "item_id (attachHeap causes a st x) = item_id (heap st x)"
  "methodIdentity (attachHeap causes a st x) = methodIdentity (heap st x)"
  by (simp_all add: attachHeap_def Let_def setCause_fields split: option.split list.split)

lemma attachHeap_untouched: "\<not> touches st a x \<Longrightarrow> attachHeap causes a st x = heap st x"
  by (auto simp: attachHeap_def Let_def setCause_def touches_def split: option.split list.split)

lemma attachHeap_touched:
  "touches st a x \<Longrightarrow>
     changeCauseMethods (attachHeap causes a st x) = mapGet causes (methodIdentity (heap st a))"
  by (auto simp: attachHeap_def Let_def setCause_def touches_def split: option.split list.split)

lemma attachHeap_only_cause:
  "attachHeap causes a st x
     = (heap st x)\<lparr>changeCauseMethods := changeCauseMethods (attachHeap causes a st x)\<rparr>"
  by (auto simp: attachHeap_def Let_def setCause_def split: option.split list.split)

lemma attachCauses_keyed_step:
  assumes "historiesKeyed st" and "attachCauses causes (a # items) st = Inr st'"
  shows "attachCauses causes items (st\<lparr>heap := attachHeap causes a st\<rparr>) = Inr st'"
proof -
  let ?v = "mapGet causes (methodIdentity (heap st a))"
  let ?st1 = "st\<lparr>heap := setCause a ?v (heap st)\<rparr>"
  show ?thesis
  proof (cases "mapGet (inferCostHistories st) (item_id (heap st a))")
    case None
    with assms(2) show ?thesis
      by (simp add: Let_def setCause_fields attachHeap_def)
  next
    case (Some hist)
    with assms(2) obtain h rest where hist: "hist = h # rest"
      by (cases hist) (simp_all add: Let_def setCause_fields)
    have key: "item_id (heap st h) = item_id (heap st a)"
      using historiesKeyed_head [OF assms(1)] Some hist by simp
    have same: "mapSet (inferCostHistories st) (item_id (heap st a)) (h # rest) = inferCostHistories st"
      using Some hist by (simp add: mapSet_same)
    from assms(2) Some hist show ?thesis
      by (simp add: Let_def setCause_fields attachHeap_def key same)
  qed
qed

lemma attachCauses_keyed:
  assumes "historiesKeyed st" and "attachCauses causes items st = Inr st'"
  shows "inferCostHistories st' = inferCostHistories st
     \<and> (\<forall>x. (\<forall>a \<in> set items. \<not> touches st a x) \<longrightarrow> heap st' x = heap st x)
     \<and> (\<forall>x. (\<exists>a \<in> set items. touches st a x) \<longrightarrow>
            (\<exists>a \<in> set items. touches st a x
               \<and> changeCauseMethods (heap st' x) = mapGet causes (methodIdentity (heap st a))))
     \<and> (\<forall>x. \<exists>v. heap st' x = (heap st x)\<lparr>changeCauseMethods := v\<rparr>)"
  using assms
proof (induction items arbitrary: st)
  case Nil
  have "\<And>x. heap st x = (heap st x)\<lparr>changeCauseMethods := changeCauseMethods (heap st x)\<rparr>"
    by simp
  then have "\<forall>x. \<exists>v. heap st x = (heap st x)\<lparr>changeCauseMethods := v\<rparr>"
    by blast
  with Nil show ?case by simp
next
  case (Cons a items)
  let ?st2 = "st\<lparr>heap := attachHeap causes a st\<rparr>"
  have ids: "\<forall>x. item_id (attachHeap causes a st x) = item_id (heap st x)"
    by (simp add: attachHeap_ids)
  have k2: "historiesKeyed ?st2"
    using Cons.prems(1) ids by (simp add: historiesKeyed_heap)
  have r: "attachCauses causes items ?st2 = Inr st'"
    using Cons.prems by (rule attachCauses_keyed_step)
  have t: "\<And>b x. touches ?st2 b x = touches st b x"
    using ids by (simp add: touches_heap)
  note ih = Cons.IH [OF k2 r, unfolded t]
  have h: "inferCostHistories st' = inferCostHistories st"
    using ih by simp
  have u: "\<forall>x. (\<forall>b \<in> set (a # items). \<not> touches st b x) \<longrightarrow> heap st' x = heap st x"
    using ih by (simp add: attachHeap_untouched)
  have w: "\<forall>x. (\<exists>b \<in> set (a # items). touches st b x) \<longrightarrow>
            (\<exists>b \<in> set (a # items). touches st b x
               \<and> changeCauseMethods (heap st' x) = mapGet causes (methodIdentity (heap st b)))"
  proof (intro allI impI)
    fix x
    assume "\<exists>b \<in> set (a # items). touches st b x"
    show "\<exists>b \<in> set (a # items). touches st b x
               \<and> changeCauseMethods (heap st' x) = mapGet causes (methodIdentity (heap st b))"
    proof (cases "\<exists>b \<in> set items. touches st b x")
      case True
      with ih obtain b where "b \<in> set items" "touches st b x"
        "changeCauseMethods (heap st' x) = mapGet causes (methodIdentity (heap ?st2 b))"
        by blast
      then show ?thesis by (auto simp: attachHeap_ids)
    next
      case False
      with \<open>\<exists>b \<in> set (a # items). touches st b x\<close> have ta: "touches st a x" by auto
      from False ih have "heap st' x = heap ?st2 x" by simp
      then have "changeCauseMethods (heap st' x) = mapGet causes (methodIdentity (heap st a))"
        using ta by (simp add: attachHeap_touched)
      with ta show ?thesis by auto
    qed
  qed
  have o: "\<forall>x. \<exists>v. heap st' x = (heap st x)\<lparr>changeCauseMethods := v\<rparr>"
  proof
    fix x
    from ih have "\<exists>v. heap st' x = (heap ?st2 x)\<lparr>changeCauseMethods := v\<rparr>"
      by blast
    then obtain v where v: "heap st' x = (heap ?st2 x)\<lparr>changeCauseMethods := v\<rparr>" ..
    obtain w where w: "heap ?st2 x = (heap st x)\<lparr>changeCauseMethods := w\<rparr>"
      using attachHeap_only_cause [of causes a st x] by simp
    have "heap st' x = (heap st x)\<lparr>changeCauseMethods := v\<rparr>"
      unfolding v w by simp
    then show "\<exists>v. heap st' x = (heap st x)\<lparr>changeCauseMethods := v\<rparr>" ..
  qed
  from h u w o show ?case by blast
qed

lemma idsIdentify_same:
  "idsIdentify st items \<Longrightarrow> a \<in> set items \<Longrightarrow> b \<in> set items
   \<Longrightarrow> item_id (heap st a) = item_id (heap st b)
   \<Longrightarrow> methodIdentity (heap st a) = methodIdentity (heap st b)"
  unfolding idsIdentify_def list_all_iff by blast

lemma toucher_identity:
  assumes k: "historiesKeyed st" and i: "idsIdentify st items"
    and a: "a \<in> set items" and b: "b \<in> set items"
    and ta: "touches st a x" and tb: "touches st b x"
  shows "methodIdentity (heap st b) = methodIdentity (heap st a)"
proof -
  have ident: "\<And>c. touches st c x \<Longrightarrow> x = c \<or> item_id (heap st x) = item_id (heap st c)"
  proof -
    fix c
    assume "touches st c x"
    then have "x = c \<or> (\<exists>rest. mapGet (inferCostHistories st) (item_id (heap st c)) = Some (x # rest))"
      by (simp only: touches_def)
    then show "x = c \<or> item_id (heap st x) = item_id (heap st c)"
    proof
      assume "x = c"
      then show ?thesis ..
    next
      assume "\<exists>rest. mapGet (inferCostHistories st) (item_id (heap st c)) = Some (x # rest)"
      then obtain rest where "mapGet (inferCostHistories st) (item_id (heap st c)) = Some (x # rest)" ..
      then have "item_id (heap st x) = item_id (heap st c)"
        by (rule historiesKeyed_head [OF k])
      then show ?thesis ..
    qed
  qed
  from ident [OF ta] ident [OF tb] have "item_id (heap st b) = item_id (heap st a)"
    by metis
  then show ?thesis by (rule idsIdentify_same [OF i b a])
qed

lemma trackedState_fields:
  "previousTextOf trackedState = Some scenarioPrevious"
  "currentInferCost trackedState = Some [0]"
  "nonConstantMethods trackedState = [''foo'', ''baz'']"
  "inferCostHistories trackedState = [(''A.foo(int):void'', [0])]"
  "item_id (heap trackedState 0) = ''A.foo(int):void''"
  "methodIdentity (heap trackedState 0) = ''foo(int)''"
  "changeCauseMethods (heap trackedState 0) = Some [''stale()'']"
  by (simp_all add: trackedState_def analysedState_def fooItem_def previousTextOf_def
      scenarioPrevious_def methodIdentity_def)

lemma trackedState_wellformed:
  "historiesKeyed trackedState" "idsIdentify trackedState [0]"
  by (simp_all add: historiesKeyed_def idsIdentify_def trackedState_fields)

text \<open>
  In a state whose histories are keyed and whose cost list has ids that identify its
  methods, a call that passes the check for a previous text and returns leaves on every
  entry of the current cost list, and on the head of the history of its id, the cause
  list that the cause map of this call holds for the identity of the entry; where the
  map holds none, the field is absent afterwards, whatever it held before. The call
  changes no other field of any entry and leaves the histories as they are.
\<close>

theorem cause_attribution_overwritten:
  assumes "significantCodeChangeCheck diffLines methodWhitelist savedText st = Inr (b, st')"
    and "classification diffLines methodWhitelist savedText st = Some (Inr (causes, isSignificant))"
    and "currentInferCost st = Some items"
    and "historiesKeyed st" and "idsIdentify st items"
  shows "(\<forall>a \<in> set items.
            changeCauseMethods (heap st' a) = mapGet causes (methodIdentity (heap st a))
            \<and> (\<forall>h rest. mapGet (inferCostHistories st) (item_id (heap st a)) = Some (h # rest)
                  \<longrightarrow> changeCauseMethods (heap st' h) = mapGet causes (methodIdentity (heap st a))))
       \<and> inferCostHistories st' = inferCostHistories st
       \<and> (\<forall>x. \<exists>v. heap st' x = (heap st x)\<lparr>changeCauseMethods := v\<rparr>)"
proof -
  from check_with_snapshot [OF assms(2,1)] obtain causes' items' st1 where
    r: "Inr (causes, isSignificant) = (Inr (causes', b) :: error + (string, string list) jsmap \<times> bool)"
    and i: "currentInferCost st = Some items'"
    and at': "attachCauses causes' items' st = Inr st1"
    and s: "st' = st1\<lparr>inferCosts := mapSet (inferCosts st1) (activeFileName st1) items',
                   fired := Suc (fired st1)\<rparr>"
    by (elim exE conjE)
  from r have c: "causes' = causes" by simp
  from i assms(3) have it: "items' = items" by simp
  have at: "attachCauses causes items st = Inr st1"
    using at' unfolding c it .
  note facts = attachCauses_keyed [OF assms(4) at]
  note someone = facts [THEN conjunct2, THEN conjunct2, THEN conjunct1, rule_format]
  have hp: "heap st' = heap st1"
    by (simp add: s)
  have hs: "inferCostHistories st' = inferCostHistories st1"
    by (simp add: s)
  have written: "\<And>a x. a \<in> set items \<Longrightarrow> touches st a x
      \<Longrightarrow> changeCauseMethods (heap st1 x) = mapGet causes (methodIdentity (heap st a))"
  proof -
    fix a x
    assume a: "a \<in> set items" and ta: "touches st a x"
    then have "\<exists>a \<in> set items. touches st a x" ..
    then have "\<exists>c \<in> set items. touches st c x
        \<and> changeCauseMethods (heap st1 x) = mapGet causes (methodIdentity (heap st c))"
      by (rule someone)
    then obtain c where c: "c \<in> set items" and tc: "touches st c x"
      and v: "changeCauseMethods (heap st1 x) = mapGet causes (methodIdentity (heap st c))"
      by (elim bexE conjE)
    have "methodIdentity (heap st c) = methodIdentity (heap st a)"
      using assms(4,5) a c ta tc by (rule toucher_identity)
    with v show "changeCauseMethods (heap st1 x) = mapGet causes (methodIdentity (heap st a))"
      by (simp only:)
  qed
  have entries: "\<forall>a \<in> set items.
            changeCauseMethods (heap st' a) = mapGet causes (methodIdentity (heap st a))
            \<and> (\<forall>h rest. mapGet (inferCostHistories st) (item_id (heap st a)) = Some (h # rest)
                  \<longrightarrow> changeCauseMethods (heap st' h) = mapGet causes (methodIdentity (heap st a)))"
  proof (intro ballI conjI allI impI)
    fix a assume a: "a \<in> set items"
    have "touches st a a" by (simp add: touches_def)
    with a show "changeCauseMethods (heap st' a) = mapGet causes (methodIdentity (heap st a))"
      unfolding hp by (rule written)
    fix h rest
    assume "mapGet (inferCostHistories st) (item_id (heap st a)) = Some (h # rest)"
    then have "\<exists>rest. mapGet (inferCostHistories st) (item_id (heap st a)) = Some (h # rest)" ..
    then have "touches st a h" unfolding touches_def by (rule disjI2)
    with a show "changeCauseMethods (heap st' h) = mapGet causes (methodIdentity (heap st a))"
      unfolding hp by (rule written)
  qed
  have h': "inferCostHistories st' = inferCostHistories st"
    using facts [THEN conjunct1] hs by simp
  have f': "\<forall>x. \<exists>v. heap st' x = (heap st x)\<lparr>changeCauseMethods := v\<rparr>"
    unfolding hp using facts [THEN conjunct2, THEN conjunct2, THEN conjunct2] .
  show ?thesis
    by (rule conjI [OF entries conjI [OF h' f']])
qed

theorem cause_attribution_overwritten_witness:
  "changeCauseMethods (heap trackedState 0) = Some [''stale()'']
   \<and> (\<exists>st'. significantCodeChangeCheck scenarioDiffLines [''baz''] scenarioSaved trackedState
               = Inr (False, st')
          \<and> changeCauseMethods (heap st' 0) = None)
   \<and> (\<exists>st'. significantCodeChangeCheck scenarioDiffLines [] scenarioSaved trackedState
               = Inr (True, st')
          \<and> changeCauseMethods (heap st' 0) = Some [''baz()''])"
proof -
  have p: "scenarioPrevious \<noteq> []"
    by (simp add: scenarioPrevious_def)
  have d: "scenarioDiffLines scenarioPrevious scenarioSaved = scenarioDiff"
    by (simp add: scenarioDiffLines_def)
  have n: "\<forall>a \<in> set [0]. mapGet (inferCostHistories trackedState) (item_id (heap trackedState a)) \<noteq> Some []"
    by (simp add: trackedState_fields)
  have pt: "mapGet (savedDocumentTexts trackedState) (activeFileName trackedState) = Some scenarioPrevious"
    using trackedState_fields(1) by (simp add: previousTextOf_def)
  have cB: "classifyDiff (getGenericTypeExtensions scenarioPrevious) [''baz''] (nonConstantMethods trackedState)
      (scenarioDiffLines scenarioPrevious scenarioSaved) = Inr ([], False)"
    by (simp add: d scenario_B trackedState_fields)
  have cA: "classifyDiff (getGenericTypeExtensions scenarioPrevious) [] (nonConstantMethods trackedState)
      (scenarioDiffLines scenarioPrevious scenarioSaved) = Inr ([(''foo(int)'', [''baz()''])], True)"
    by (simp add: d scenario_A trackedState_fields)
  have clB: "classification scenarioDiffLines [''baz''] scenarioSaved trackedState = Some (Inr ([], False))"
    by (simp add: classification_def trackedState_fields(1) p cB)
  have clA: "classification scenarioDiffLines [] scenarioSaved trackedState
      = Some (Inr ([(''foo(int)'', [''baz()''])], True))"
    by (simp add: classification_def trackedState_fields(1) p cA)
  obtain stB where aB: "attachCauses [] [0] trackedState = Inr stB"
    using attachCauses_returns [OF n] by blast
  obtain stA where aA: "attachCauses [(''foo(int)'', [''baz()''])] [0] trackedState = Inr stA"
    using attachCauses_returns [OF n] by blast
  define stB' where
    "stB' = stB\<lparr>inferCosts := mapSet (inferCosts stB) (activeFileName stB) [0], fired := Suc (fired stB)\<rparr>"
  define stA' where
    "stA' = stA\<lparr>inferCosts := mapSet (inferCosts stA) (activeFileName stA) [0], fired := Suc (fired stA)\<rparr>"
  have rB: "significantCodeChangeCheck scenarioDiffLines [''baz''] scenarioSaved trackedState = Inr (False, stB')"
    by (simp add: significantCodeChangeCheck_def pt p cB trackedState_fields(2) aB stB'_def
        del: attachCauses.simps)
  have rA: "significantCodeChangeCheck scenarioDiffLines [] scenarioSaved trackedState = Inr (True, stA')"
    by (simp add: significantCodeChangeCheck_def pt p cA trackedState_fields(2) aA stA'_def
        del: attachCauses.simps)
  have "changeCauseMethods (heap stB' 0) = mapGet [] (methodIdentity (heap trackedState 0))"
    using cause_attribution_overwritten
      [OF rB clB trackedState_fields(2) trackedState_wellformed, THEN conjunct1]
    by simp
  then have "changeCauseMethods (heap stB' 0) = None"
    by simp
  moreover have "changeCauseMethods (heap stA' 0)
      = mapGet [(''foo(int)'', [''baz()''])] (methodIdentity (heap trackedState 0))"
    using cause_attribution_overwritten
      [OF rA clA trackedState_fields(2) trackedState_wellformed, THEN conjunct1]
    by simp
  then have "changeCauseMethods (heap stA' 0) = Some [''baz()'']"
    by (simp add: trackedState_fields)
  ultimately show ?thesis
    using rA rB trackedState_fields(7) by blast
qed

section \<open>Parameter types against their specification\<close>

lemma indexOf_prefix: "startsWith k t \<Longrightarrow> indexOf t k = Some 0"
  by (cases t) (auto simp: indexOf_def startsWith_def)

lemma getSubstitution_plain:
  "CHR ''$'' \<notin> set r \<Longrightarrow> getSubstitution matched pre post r = r"
  by (induction matched pre post r rule: getSubstitution.induct) auto

lemma replace_prefix:
  assumes "takeWhile P t = k" and "CHR ''$'' \<notin> set v"
  shows "replace t k v = v @ drop (length k) t"
proof -
  have "take (length k) t = k"
    using assms(1) takeWhile_eq_take [of P t] by simp
  then have "indexOf t k = Some 0"
    by (simp add: indexOf_prefix startsWith_def)
  then show ?thesis
    using assms(2) by (simp add: replace_def getSubstitution_plain)
qed

lemma applyTypeExtensions_foldl:
  "\<forall>(k, v) \<in> set typeExtensions. CHR ''$'' \<notin> set v \<Longrightarrow>
   applyTypeExtensions typeExtensions t =
     foldl (\<lambda>t (k, v). if takeWhile (\<lambda>c. c \<noteq> CHR ''['') t = k then v @ drop (length k) t else t)
       t typeExtensions"
proof (induction typeExtensions arbitrary: t)
  case Nil
  show ?case by simp
next
  case (Cons entry typeExtensions)
  obtain k v where entry: "entry = (k, v)" by (cases entry)
  have plain: "CHR ''$'' \<notin> set v" using Cons.prems entry by simp
  have step: "(if splitHead t ''['' = Some k then replace t k v else t)
      = (if takeWhile (\<lambda>c. c \<noteq> CHR ''['') t = k then v @ drop (length k) t else t)"
    using plain by (simp add: splitHead_char replace_prefix)
  have rest: "\<forall>(k, v) \<in> set typeExtensions. CHR ''$'' \<notin> set v"
    using Cons.prems by simp
  show ?case
    by (simp add: entry step Cons.IH [OF rest])
qed

lemma skipModifiers_dropWhile:
  assumes "\<forall>part \<in> set (p # rest).
             testRx modifierRegex [] (takeWhile (\<lambda>c. c \<noteq> CHR ''<'') part) = (part \<in> set modifierWords)"
    and "\<exists>part \<in> set (p # rest). part \<notin> set modifierWords"
  shows "skipModifiers (takeWhile (\<lambda>c. c \<noteq> CHR ''<'') p) rest =
     Inr (case dropWhile (\<lambda>part. part \<in> set modifierWords) (p # rest) of
            [] \<Rightarrow> [] | part # _ \<Rightarrow> takeWhile (\<lambda>c. c \<noteq> CHR ''<'') part)"
  using assms
proof (induction rest arbitrary: p)
  case Nil
  then have "p \<notin> set modifierWords" by simp
  moreover from Nil have "\<not> testRx modifierRegex [] (takeWhile (\<lambda>c. c \<noteq> CHR ''<'') p)" by simp
  ultimately show ?case
    by (subst skipModifiers.simps) simp
next
  case (Cons q rest)
  show ?case
  proof (cases "p \<in> set modifierWords")
    case False
    moreover from Cons.prems(1) False
    have "\<not> testRx modifierRegex [] (takeWhile (\<lambda>c. c \<noteq> CHR ''<'') p)" by simp
    ultimately show ?thesis
      by (subst skipModifiers.simps) simp
  next
    case True
    from Cons.prems(1) True
    have t: "testRx modifierRegex [] (takeWhile (\<lambda>c. c \<noteq> CHR ''<'') p)" by simp
    have a: "\<forall>part \<in> set (q # rest).
             testRx modifierRegex [] (takeWhile (\<lambda>c. c \<noteq> CHR ''<'') part) = (part \<in> set modifierWords)"
      using Cons.prems(1) by simp
    have b: "\<exists>part \<in> set (q # rest). part \<notin> set modifierWords"
      using Cons.prems(2) True by auto
    have "skipModifiers (takeWhile (\<lambda>c. c \<noteq> CHR ''<'') p) (q # rest)
        = skipModifiers (takeWhile (\<lambda>c. c \<noteq> CHR ''<'') q) rest"
      by (subst skipModifiers.simps) (simp add: t splitHead_char del: skipModifiers.simps)
    also note Cons.IH [OF a b]
    finally show ?thesis using True by simp
  qed
qed

text \<open>
  Where no part of a parameter contains a modifier word without being one, some part is
  not a modifier, and no bound contains a dollar sign, the code computes the type of the
  parameter as specified.
\<close>

lemma parameterTypeOf_as_specified:
  assumes "\<forall>part \<in> set (split (trim parameter) '' '').
             testRx modifierRegex [] (takeWhile (\<lambda>c. c \<noteq> CHR ''<'') part) = (part \<in> set modifierWords)"
    and "\<exists>part \<in> set (split (trim parameter) '' ''). part \<notin> set modifierWords"
    and "\<forall>(k, v) \<in> set typeExtensions. CHR ''$'' \<notin> set v"
  shows "parameterTypeOf typeExtensions parameter = Inr (specParameterType typeExtensions parameter)"
proof -
  from assms(2) obtain p rest where parts: "split (trim parameter) '' '' = p # rest"
    by (cases "split (trim parameter) '' ''") auto
  have s: "skipModifiers (takeWhile (\<lambda>c. c \<noteq> CHR ''<'') p) rest =
     Inr (case dropWhile (\<lambda>part. part \<in> set modifierWords) (p # rest) of
            [] \<Rightarrow> [] | part # _ \<Rightarrow> takeWhile (\<lambda>c. c \<noteq> CHR ''<'') part)"
    using assms(1,2) unfolding parts by (rule skipModifiers_dropWhile)
  show ?thesis
    unfolding parameterTypeOf_def specParameterType_def Let_def parts
    by (simp add: splitHead_char s applyTypeExtensions_foldl [OF assms(3)] del: skipModifiers.simps)
qed

lemma parameterTypeOf_as_specified_example:
  "parameterTypeOf [(''A'', ''B'')] '' final A[] xs'' = Inr ''B[]''"
proof -
  have h1: "\<forall>part \<in> set (split (trim '' final A[] xs'') '' '').
             testRx modifierRegex [] (takeWhile (\<lambda>c. c \<noteq> CHR ''<'') part) = (part \<in> set modifierWords)"
    by code_simp
  have h2: "\<exists>part \<in> set (split (trim '' final A[] xs'') '' ''). part \<notin> set modifierWords"
    by code_simp
  have h3: "\<forall>(k, v) \<in> set [(''A'', ''B'')]. CHR ''$'' \<notin> set v"
    by simp
  have "specParameterType [(''A'', ''B'')] '' final A[] xs'' = ''B[]''"
    by code_simp
  with parameterTypeOf_as_specified [OF h1 h2 h3] show ?thesis
    by simp
qed

text \<open>
  C8: the code does not compute the specified type for every parameter. The test
  for a modifier is a search for a modifier word anywhere in the part
  (\<open>parameterType.match(/(public|...)/)\<close>), so a type whose name contains one, as
  \<open>finalState\<close>, is skipped like a modifier: for the declaration
  \<open>void foo(finalState s)\<close>, which the declaration pattern matches, the code returns
  the parameter name \<open>s\<close> where the specified type is \<open>finalState\<close>; and when no
  part follows, as in \<open>foo(publicKey)\<close>, the code raises.
\<close>

theorem modifier_substring_skips_type:
  "scanAll methodDeclarationRegex [] ''void foo(finalState s)'' = [(''void foo(finalState s)'', Some ''foo'')]
   \<and> getParameterTypesFromMethodDeclaration ''void foo(finalState s)'' [] = Inr [''s'']
   \<and> specParameterTypes ''void foo(finalState s)'' [] = [''finalState'']
   \<and> getParameterTypesFromMethodDeclaration ''void foo(publicKey)'' [] = Inl TypeError"
  by code_simp

section \<open>The patterns never match the empty text\<close>

text \<open>
  A match never ends before it starts, and a match of the declaration, class or
  significance pattern is never empty. So the step of \<open>scanAll\<close> and \<open>stripAll\<close> for an
  empty match is never taken for them, and the \<open>regex.exec\<close> loops of the source,
  which would not end on an empty match, do end.
\<close>

lemma rmatch_consumes:
  "(b', s', g') \<in> set (rmatch r (b, s, g)) \<Longrightarrow> length s' + minLen r \<le> length s"
proof (induction r "(b, s, g)" arbitrary: b s g b' s' g' rule: rmatch.induct)
  case (1 P b s g)
  then show ?case by (auto split: list.splits if_splits)
next
  case (2 t b s g)
  then have "take (length t) s = t" and "s' = drop (length t) s"
    by (auto simp: startsWith_def split: if_splits)
  then have t: "take (length t) s = t" and d: "s' = drop (length t) s"
    by simp_all
  have "length (take (length t) s) \<le> length s"
    by simp
  then have "length t \<le> length s"
    unfolding t .
  then show ?case
    by (simp add: d)
next
  case (3 b s g)
  then show ?case by simp
next
  case (4 r1 r2 b s g)
  from 4(3) obtain b1 s1 g1 where
    m1: "(b1, s1, g1) \<in> set (rmatch r1 (b, s, g))"
    and m2: "(b', s', g') \<in> set (rmatch r2 (b1, s1, g1))"
    by auto
  from 4(1) [OF m1] 4(2) [OF m1 m2] show ?case by simp
next
  case (5 r1 r2 b s g)
  from 5(3) have "(b', s', g') \<in> set (rmatch r1 (b, s, g)) \<or> (b', s', g') \<in> set (rmatch r2 (b, s, g))"
    by auto
  then show ?case
  proof
    assume m: "(b', s', g') \<in> set (rmatch r1 (b, s, g))"
    from 5(1) [OF m] show ?thesis by simp
  next
    assume m: "(b', s', g') \<in> set (rmatch r2 (b, s, g))"
    from 5(2) [OF m] show ?thesis by simp
  qed
next
  case (6 r b s g)
  from 6(3) have "(b', s', g') = (b, s, g)
      \<or> (\<exists>b1 s1 g1. (b1, s1, g1) \<in> set (rmatch r (b, s, g)) \<and> length s1 < length s
            \<and> (b', s', g') \<in> set (rmatch (Star r) (b1, s1, g1)))"
    by (subst (asm) rmatch.simps) (auto simp del: rmatch.simps split: if_splits)
  then show ?case
  proof
    assume "(b', s', g') = (b, s, g)"
    then show ?thesis by simp
  next
    assume "\<exists>b1 s1 g1. (b1, s1, g1) \<in> set (rmatch r (b, s, g)) \<and> length s1 < length s
            \<and> (b', s', g') \<in> set (rmatch (Star r) (b1, s1, g1))"
    then obtain b1 s1 g1 where m1: "(b1, s1, g1) \<in> set (rmatch r (b, s, g))"
      and l: "length s1 < length s"
      and m2: "(b', s', g') \<in> set (rmatch (Star r) (b1, s1, g1))"
      by blast
    from 6(2) [OF m1 refl refl l m2] l show ?thesis by simp
  qed
next
  case (7 r b s g)
  from 7(3) have "(b', s', g') = (b, s, g)
      \<or> (\<exists>b1 s1 g1. (b1, s1, g1) \<in> set (rmatch r (b, s, g)) \<and> length s1 < length s
            \<and> (b', s', g') \<in> set (rmatch (LazyStar r) (b1, s1, g1)))"
    by (subst (asm) rmatch.simps) (auto simp del: rmatch.simps split: if_splits)
  then show ?case
  proof
    assume "(b', s', g') = (b, s, g)"
    then show ?thesis by simp
  next
    assume "\<exists>b1 s1 g1. (b1, s1, g1) \<in> set (rmatch r (b, s, g)) \<and> length s1 < length s
            \<and> (b', s', g') \<in> set (rmatch (LazyStar r) (b1, s1, g1))"
    then obtain b1 s1 g1 where m1: "(b1, s1, g1) \<in> set (rmatch r (b, s, g))"
      and l: "length s1 < length s"
      and m2: "(b', s', g') \<in> set (rmatch (LazyStar r) (b1, s1, g1))"
      by blast
    from 7(2) [OF m1 refl refl l m2] l show ?thesis by simp
  qed
next
  case (8 b s g)
  then show ?case by (auto split: list.splits if_splits)
next
  case (9 r b s g)
  from 9(2) obtain g0 where "(b', s', g0) \<in> set (rmatch r (b, s, g))"
    by auto
  from 9(1) [OF this] show ?case by simp
next
  case (10 r b s g)
  then show ?case by (auto split: if_splits)
qed


lemma pattern_lengths:
  "minLen methodDeclarationRegex = 5"
  "minLen classRegex = 7"
  "minLen significantCodeChangeRegex = 3"
  by code_simp+

lemma matches_not_empty:
  assumes "r = methodDeclarationRegex \<or> r = classRegex \<or> r = significantCodeChangeRegex"
    and "(b', s', g') \<in> set (rmatch r (b, s, g))"
  shows "length s' < length s"
proof -
  have "3 \<le> minLen r"
    using assms(1) pattern_lengths by (elim disjE) simp_all
  with rmatch_consumes [OF assms(2)] show ?thesis
    by simp
qed

section \<open>Keyed histories are an invariant\<close>

text \<open>
  The histories are keyed before the first analysis, and the history tracker and the
  classifier keep them keyed.
\<close>

lemma list_all_mapSet: "list_all P m \<Longrightarrow> P (k, v) \<Longrightarrow> list_all P (mapSet m k v)"
  by (induction m) auto

lemma historiesKeyed_cong:
  "inferCostHistories st' = inferCostHistories st
   \<Longrightarrow> \<forall>x. item_id (heap st' x) = item_id (heap st x)
   \<Longrightarrow> historiesKeyed st' = historiesKeyed st"
  by (auto simp: historiesKeyed_def list_all_iff split: list.splits)

lemma historiesKeyed_initially: "historiesKeyed initialState"
  by (simp add: historiesKeyed_def initialState_def)

lemma historiesKeyed_updateHistoryItem:
  assumes "historiesKeyed st"
  shows "historiesKeyed (updateHistoryItem currentTime a st)"
proof (cases "headDiffers st a")
  case False
  then show ?thesis using assms by (simp add: updateHistoryItem_unchanged)
next
  case True
  let ?hp = "(heap st)(a := (heap st a)\<lparr>timestamp := Some currentTime\<rparr>)"
  let ?k = "item_id (heap st a)"
  let ?P = "\<lambda>(k, history). case history of [] \<Rightarrow> True | h # _ \<Rightarrow> item_id (heap st h) = k"
  have m: "list_all ?P (mapSet (inferCostHistories st) ?k (a # historyOf st ?k))"
    using assms by (intro list_all_mapSet) (simp_all add: historiesKeyed_def)
  have "historiesKeyed (st\<lparr>heap := ?hp,
      inferCostHistories := mapSet (inferCostHistories st) ?k (a # historyOf st ?k)\<rparr>)"
  proof -
    have eq: "\<And>h. item_id (?hp h) = item_id (heap st h)"
      by simp
    show ?thesis
      using m by (simp add: historiesKeyed_def eq cong: list.case_cong del: fun_upd_apply)
  qed
  then show ?thesis
    by (simp only: updateHistoryItem_changed [OF True])
qed

lemma historiesKeyed_updateHistoryItems:
  "historiesKeyed st \<Longrightarrow> historiesKeyed (updateHistoryItems currentTime items st)"
  by (induction items arbitrary: st) (simp_all add: historiesKeyed_updateHistoryItem)

lemma historiesKeyed_check:
  assumes "historiesKeyed st"
    and "significantCodeChangeCheck diffLines wl savedText st = Inr (b, st')"
  shows "historiesKeyed st'"
proof (cases "classification diffLines wl savedText st")
  case None
  from check_without_snapshot [OF None] assms show ?thesis by simp
next
  case (Some r)
  from check_with_snapshot [OF Some assms(2)] obtain causes items st1 where
    at: "attachCauses causes items st = Inr st1"
    and s: "st' = st1\<lparr>inferCosts := mapSet (inferCosts st1) (activeFileName st1) items,
                   fired := Suc (fired st1)\<rparr>"
    by (elim exE conjE)
  have h: "inferCostHistories st1 = inferCostHistories st"
    using attachCauses_keyed [OF assms(1) at, THEN conjunct1] .
  have ids: "\<forall>x. item_id (heap st1 x) = item_id (heap st x)"
    using attachCauses_ids [OF at] by simp
  have "historiesKeyed st1 = historiesKeyed st"
    using h ids by (rule historiesKeyed_cong)
  moreover have "historiesKeyed st' = historiesKeyed st1"
    by (rule historiesKeyed_cong) (simp_all add: s)
  ultimately show ?thesis using assms(1) by simp
qed

section \<open>Calls of registered methods\<close>

lemma scenario_A_registered:
  assumes "''baz'' \<in> set registry" "''bar'' \<in> set registry"
  shows "classifyDiff (getGenericTypeExtensions scenarioPrevious) [] registry scenarioDiff
      = Inr ([(''foo(int)'', [''bar()'', ''baz()''])], True)"
  using assms
  by (simp add: classifyDiff_def scenarioDiff_def scenario_extensions isChanged_def
      scenario_occurrences scenario_declarations occurrenceIsSignificant_def scenario_names
      addCause_def)

text \<open>
  C2, as the code has it: when the classification of a diff returns, a call-like
  occurrence \<open>name(...)\<close> of an added or removed segment (one whose name is not
  \<open>while\<close> or \<open>for\<close>) passes the test of line 107, and is recorded in the cause
  map, exactly when \<open>name\<close> is in the registry and not in the whitelist; it then makes
  the result significant, and a call of \<open>significantCodeChangeCheck\<close> that passes the
  check for a previous text and returns, returns true when the diff holds such an
  occurrence. Every call-like occurrence of a changed segment is tested, also one that
  stands in the removed and in the added segment alike. So in scenario A, where the
  line of \<open>foo\<close> is removed and added again with \<open>baz()\<close> appended, with \<open>baz\<close>
  registered and an empty whitelist, the result is significant with the cause map
  \<open>foo(int)\<close> to \<open>["baz()"]\<close> when \<open>bar\<close> is not registered, and to
  \<open>["bar()", "baz()"]\<close> when it is; with \<open>baz\<close> in the whitelist and \<open>bar\<close>
  not registered the result is not significant and the cause map is empty.
\<close>

theorem calls_significant_by_registry_and_whitelist:
  "(classifyDiff typeExtensions methodWhitelist registry diffText = Inr (causes, isSignificant)
      \<and> part \<in> set diffText \<and> isChanged part \<and> match \<in> set (occurrences (diffValue part))
      \<and> methodNameOf match \<noteq> ''while'' \<and> methodNameOf match \<noteq> ''for''
     \<longrightarrow> occurrenceIsSignificant methodWhitelist registry match
           = (methodNameOf match \<in> set registry \<and> methodNameOf match \<notin> set methodWhitelist)
         \<and> (match \<in> causeTexts causes)
           = (methodNameOf match \<in> set registry \<and> methodNameOf match \<notin> set methodWhitelist)
         \<and> (methodNameOf match \<in> set registry \<and> methodNameOf match \<notin> set methodWhitelist
              \<longrightarrow> isSignificant))
   \<and> (mapGet (savedDocumentTexts st) (activeFileName st) = Some previousText
        \<and> previousText \<noteq> []
        \<and> significantCodeChangeCheck diffLines methodWhitelist savedText st = Inr (b, st')
        \<and> part \<in> set (diffLines previousText savedText) \<and> isChanged part
        \<and> match \<in> set (occurrences (diffValue part))
        \<and> methodNameOf match \<in> set (nonConstantMethods st)
        \<and> methodNameOf match \<notin> set methodWhitelist
        \<longrightarrow> b)
   \<and> (''baz'' \<in> set registry \<and> ''bar'' \<notin> set registry
        \<longrightarrow> classifyDiff (getGenericTypeExtensions scenarioPrevious) [] registry
               (scenarioDiffLines scenarioPrevious scenarioSaved)
             = Inr ([(''foo(int)'', [''baz()''])], True))
   \<and> (''baz'' \<in> set registry \<and> ''bar'' \<in> set registry
        \<longrightarrow> classifyDiff (getGenericTypeExtensions scenarioPrevious) [] registry
               (scenarioDiffLines scenarioPrevious scenarioSaved)
             = Inr ([(''foo(int)'', [''bar()'', ''baz()''])], True))
   \<and> (''baz'' \<in> set methodWhitelist \<and> ''bar'' \<notin> set registry
        \<longrightarrow> classifyDiff (getGenericTypeExtensions scenarioPrevious) methodWhitelist registry
               (scenarioDiffLines scenarioPrevious scenarioSaved)
             = Inr ([], False))"
proof (intro conjI impI)
  assume a: "classifyDiff typeExtensions methodWhitelist registry diffText = Inr (causes, isSignificant)
      \<and> part \<in> set diffText \<and> isChanged part \<and> match \<in> set (occurrences (diffValue part))
      \<and> methodNameOf match \<noteq> ''while'' \<and> methodNameOf match \<noteq> ''for''"
  then have c: "classifyDiff typeExtensions methodWhitelist registry diffText = Inr (causes, isSignificant)"
    by simp
  show t: "occurrenceIsSignificant methodWhitelist registry match
      = (methodNameOf match \<in> set registry \<and> methodNameOf match \<notin> set methodWhitelist)"
    using a by (auto simp: occurrenceIsSignificant_def Let_def)
  have m: "(match \<in> significantOccurrences methodWhitelist registry diffText)
      = occurrenceIsSignificant methodWhitelist registry match"
    using a by (auto simp: significantOccurrences_def)
  show "(match \<in> causeTexts causes)
      = (methodNameOf match \<in> set registry \<and> methodNameOf match \<notin> set methodWhitelist)"
    using classifyDiff_result(2) [OF c] m t by simp
  assume "methodNameOf match \<in> set registry \<and> methodNameOf match \<notin> set methodWhitelist"
  then have "match \<in> significantOccurrences methodWhitelist registry diffText"
    using m t by simp
  then show isSignificant
    using classifyDiff_result(1) [OF c] by auto
next
  assume a: "mapGet (savedDocumentTexts st) (activeFileName st) = Some previousText
        \<and> previousText \<noteq> []
        \<and> significantCodeChangeCheck diffLines methodWhitelist savedText st = Inr (b, st')
        \<and> part \<in> set (diffLines previousText savedText) \<and> isChanged part
        \<and> match \<in> set (occurrences (diffValue part))
        \<and> methodNameOf match \<in> set (nonConstantMethods st)
        \<and> methodNameOf match \<notin> set methodWhitelist"
  then have p: "mapGet (savedDocumentTexts st) (activeFileName st) = Some previousText"
    and n: "previousText \<noteq> []"
    and r: "significantCodeChangeCheck diffLines methodWhitelist savedText st = Inr (b, st')"
    by blast+
  from check_past_snapshot [OF p n r] obtain found where
    c: "classifyDiff (getGenericTypeExtensions previousText) methodWhitelist (nonConstantMethods st)
          (diffLines previousText savedText) = Inr (found, b)"
    by blast
  have "occurrenceIsSignificant methodWhitelist (nonConstantMethods st) match"
    using a by (simp add: occurrenceIsSignificant_def Let_def)
  then have "match \<in> significantOccurrences methodWhitelist (nonConstantMethods st)
      (diffLines previousText savedText)"
    using a by (auto simp: significantOccurrences_def)
  then show b
    using classifyDiff_result(1) [OF c] by auto
next
  assume "''baz'' \<in> set registry \<and> ''bar'' \<notin> set registry"
  then show "classifyDiff (getGenericTypeExtensions scenarioPrevious) [] registry
               (scenarioDiffLines scenarioPrevious scenarioSaved)
             = Inr ([(''foo(int)'', [''baz()''])], True)"
    by (simp add: scenarioDiffLines_def scenario_A)
next
  assume "''baz'' \<in> set registry \<and> ''bar'' \<in> set registry"
  then show "classifyDiff (getGenericTypeExtensions scenarioPrevious) [] registry
               (scenarioDiffLines scenarioPrevious scenarioSaved)
             = Inr ([(''foo(int)'', [''bar()'', ''baz()''])], True)"
    by (simp add: scenarioDiffLines_def scenario_A_registered)
next
  assume "''baz'' \<in> set methodWhitelist \<and> ''bar'' \<notin> set registry"
  then show "classifyDiff (getGenericTypeExtensions scenarioPrevious) methodWhitelist registry
               (scenarioDiffLines scenarioPrevious scenarioSaved)
             = Inr ([], False)"
    by (simp add: scenarioDiffLines_def scenario_B)
qed

text \<open>
  That \<open>baz\<close> is registered and the whitelist empty does not fix the result of
  scenario A, nor does \<open>baz\<close> in the whitelist fix the result of scenario B.
  With \<open>bar\<close> registered as well, the cause map of scenario A holds \<open>bar()\<close> before
  \<open>baz()\<close>, and with \<open>baz\<close> whitelisted the result is still significant, by
  \<open>bar()\<close>: the call \<open>bar()\<close> is an occurrence of the removed and of the added line.
\<close>

theorem registered_neighbour_counterexample:
  "classifyDiff (getGenericTypeExtensions scenarioPrevious) [] [''bar'', ''baz'']
       (scenarioDiffLines scenarioPrevious scenarioSaved)
     = Inr ([(''foo(int)'', [''bar()'', ''baz()''])], True)
   \<and> classifyDiff (getGenericTypeExtensions scenarioPrevious) [''baz''] [''bar'', ''baz'']
       (scenarioDiffLines scenarioPrevious scenarioSaved)
     = Inr ([(''foo(int)'', [''bar()''])], True)"
  by (simp add: scenarioDiffLines_def classifyDiff_def scenarioDiff_def scenario_extensions
      isChanged_def scenario_occurrences scenario_declarations occurrenceIsSignificant_def
      scenario_names addCause_def)

theorem calls_significant_by_registry_and_whitelist_witness:
  "(''baz()'' \<in> causeTexts [(''foo(int)'', [''baz()''])])
   \<and> returnedValue (significantCodeChangeCheck scenarioDiffLines [] scenarioSaved trackedState)
        = Some True
   \<and> classifyDiff (getGenericTypeExtensions scenarioPrevious) [] [''baz'']
        (scenarioDiffLines scenarioPrevious scenarioSaved) = Inr ([(''foo(int)'', [''baz()''])], True)
   \<and> classifyDiff (getGenericTypeExtensions scenarioPrevious) [] [''baz'', ''bar'']
        (scenarioDiffLines scenarioPrevious scenarioSaved)
        = Inr ([(''foo(int)'', [''bar()'', ''baz()''])], True)
   \<and> classifyDiff (getGenericTypeExtensions scenarioPrevious) [''baz''] [''baz'']
        (scenarioDiffLines scenarioPrevious scenarioSaved) = Inr ([], False)"
proof -
  note inst = calls_significant_by_registry_and_whitelist
    [where typeExtensions = "getGenericTypeExtensions scenarioPrevious" and methodWhitelist = "[]"
       and registry = "[''baz'']" and diffText = "scenarioDiffLines scenarioPrevious scenarioSaved"
       and causes = "[(''foo(int)'', [''baz()''])]" and isSignificant = True
       and part = "\<lparr>diffValue = scenarioSaved, diffState = Added\<rparr>" and match = "''baz()''"]
  have reg: "''baz'' \<in> set [''baz''] \<and> ''bar'' \<notin> set [''baz'']"
    by simp
  have a: "classifyDiff (getGenericTypeExtensions scenarioPrevious) [] [''baz'']
        (scenarioDiffLines scenarioPrevious scenarioSaved) = Inr ([(''foo(int)'', [''baz()''])], True)"
    using inst [THEN conjunct2, THEN conjunct2, THEN conjunct1, rule_format, OF reg] .
  have p: "\<lparr>diffValue = scenarioSaved, diffState = Added\<rparr>
      \<in> set (scenarioDiffLines scenarioPrevious scenarioSaved)"
    by (simp add: scenarioDiffLines_def scenarioDiff_def)
  have o: "''baz()'' \<in> set (occurrences (diffValue \<lparr>diffValue = scenarioSaved, diffState = Added\<rparr>))"
    by (simp add: scenario_occurrences)
  have n: "methodNameOf ''baz()'' \<noteq> ''while'' \<and> methodNameOf ''baz()'' \<noteq> ''for''"
    by (simp add: scenario_names)
  have c: "isChanged \<lparr>diffValue = scenarioSaved, diffState = Added\<rparr>"
    by (simp add: isChanged_def)
  have prem: "classifyDiff (getGenericTypeExtensions scenarioPrevious) [] [''baz'']
        (scenarioDiffLines scenarioPrevious scenarioSaved) = Inr ([(''foo(int)'', [''baz()''])], True)
      \<and> \<lparr>diffValue = scenarioSaved, diffState = Added\<rparr>
          \<in> set (scenarioDiffLines scenarioPrevious scenarioSaved)
      \<and> isChanged \<lparr>diffValue = scenarioSaved, diffState = Added\<rparr>
      \<and> ''baz()'' \<in> set (occurrences (diffValue \<lparr>diffValue = scenarioSaved, diffState = Added\<rparr>))
      \<and> methodNameOf ''baz()'' \<noteq> ''while'' \<and> methodNameOf ''baz()'' \<noteq> ''for''"
    using a p c o n by (intro conjI) (elim conjE, assumption)+
  have e: "(''baz()'' \<in> causeTexts [(''foo(int)'', [''baz()''])])
      = (methodNameOf ''baz()'' \<in> set [''baz''] \<and> methodNameOf ''baz()'' \<notin> set [])"
    using inst [THEN conjunct1, rule_format, OF prem] by (elim conjE)
  have m: "''baz()'' \<in> causeTexts [(''foo(int)'', [''baz()''])]"
    unfolding e by (simp add: scenario_names)
  have both: "''baz'' \<in> set [''baz'', ''bar''] \<and> ''bar'' \<in> set [''baz'', ''bar'']"
    by simp
  have a': "classifyDiff (getGenericTypeExtensions scenarioPrevious) [] [''baz'', ''bar'']
        (scenarioDiffLines scenarioPrevious scenarioSaved)
        = Inr ([(''foo(int)'', [''bar()'', ''baz()''])], True)"
    using calls_significant_by_registry_and_whitelist
      [where registry = "[''baz'', ''bar'']",
       THEN conjunct2, THEN conjunct2, THEN conjunct2, THEN conjunct1, rule_format, OF both] .
  have wl: "''baz'' \<in> set [''baz''] \<and> ''bar'' \<notin> set [''baz'']"
    by simp
  have b: "classifyDiff (getGenericTypeExtensions scenarioPrevious) [''baz''] [''baz'']
        (scenarioDiffLines scenarioPrevious scenarioSaved) = Inr ([], False)"
    using calls_significant_by_registry_and_whitelist
      [where methodWhitelist = "[''baz'']" and registry = "[''baz'']",
       THEN conjunct2, THEN conjunct2, THEN conjunct2, THEN conjunct2, rule_format, OF wl] .
  have sp: "scenarioPrevious \<noteq> []"
    by (simp add: scenarioPrevious_def)
  have pt: "mapGet (savedDocumentTexts trackedState) (activeFileName trackedState) = Some scenarioPrevious"
    using trackedState_fields(1) by (simp add: previousTextOf_def)
  have cA: "classifyDiff (getGenericTypeExtensions scenarioPrevious) [] (nonConstantMethods trackedState)
      (scenarioDiffLines scenarioPrevious scenarioSaved) = Inr ([(''foo(int)'', [''baz()''])], True)"
    by (simp add: scenarioDiffLines_def scenario_A trackedState_fields)
  have ne: "\<forall>a \<in> set [0]. mapGet (inferCostHistories trackedState) (item_id (heap trackedState a)) \<noteq> Some []"
    by (simp add: trackedState_fields)
  obtain stA where aA: "attachCauses [(''foo(int)'', [''baz()''])] [0] trackedState = Inr stA"
    using attachCauses_returns [OF ne] by blast
  have "\<exists>v st'. significantCodeChangeCheck scenarioDiffLines [] scenarioSaved trackedState = Inr (v, st')"
    by (simp add: significantCodeChangeCheck_def pt sp cA trackedState_fields(2) aA
        del: attachCauses.simps) blast
  then obtain v st' where
    r: "significantCodeChangeCheck scenarioDiffLines [] scenarioSaved trackedState = Inr (v, st')"
    by blast
  have prem': "mapGet (savedDocumentTexts trackedState) (activeFileName trackedState) = Some scenarioPrevious
        \<and> scenarioPrevious \<noteq> []
        \<and> significantCodeChangeCheck scenarioDiffLines [] scenarioSaved trackedState = Inr (v, st')
        \<and> \<lparr>diffValue = scenarioSaved, diffState = Added\<rparr>
            \<in> set (scenarioDiffLines scenarioPrevious scenarioSaved)
        \<and> isChanged \<lparr>diffValue = scenarioSaved, diffState = Added\<rparr>
        \<and> ''baz()'' \<in> set (occurrences (diffValue \<lparr>diffValue = scenarioSaved, diffState = Added\<rparr>))
        \<and> methodNameOf ''baz()'' \<in> set (nonConstantMethods trackedState)
        \<and> methodNameOf ''baz()'' \<notin> set []"
    using pt sp r p c o by (simp add: scenario_names trackedState_fields)
  have v: "v"
    using calls_significant_by_registry_and_whitelist
      [where methodWhitelist = "[]" and st = trackedState and previousText = scenarioPrevious
         and diffLines = scenarioDiffLines and savedText = scenarioSaved and b = v and st' = st'
         and part = "\<lparr>diffValue = scenarioSaved, diffState = Added\<rparr>" and match = "''baz()''",
       THEN conjunct2, THEN conjunct1, rule_format, OF prem'] .
  have d: "returnedValue (significantCodeChangeCheck scenarioDiffLines [] scenarioSaved trackedState)
      = Some True"
    using v by (simp add: r returnedValue_def)
  from m d a a' b show ?thesis by (intro conjI)
qed

section \<open>A classification that raises\<close>

text \<open>
  The change that adds the lines \<open>new Thread(staticRunner).start();\<close> and \<open>baz();\<close> to
  the body of \<open>foo\<close>, in a state whose only cost entry, and the head of its history,
  carry the attribution \<open>["stale()"]\<close> of an earlier call.
\<close>

lemma thread_texts:
  "threadPrevious \<noteq> []"
  "threadDiffLines threadPrevious threadSaved = threadDiff"
  by (simp_all add: threadPrevious_def threadHeader_def threadDiffLines_def)

lemma threadState_fields:
  "previousTextOf threadState = Some threadPrevious"
  "nonConstantMethods threadState = [''foo'', ''baz'']"
  "currentInferCost threadState = Some [0]"
  "changeCauseMethods (heap threadState 0) = Some [''stale()'']"
  by (simp_all add: threadState_def trackedState_def analysedState_def previousTextOf_def)

lemma thread_occurrences: "occurrences threadAdded = [''start()'', ''baz()'']"
  by code_simp

lemma thread_declarations:
  "scanAll methodDeclarationRegex [] threadAdded = [(''    new Thread(staticRunner)'', Some ''Thread'')]"
  by code_simp

lemma thread_parameter_types:
  "getParameterTypesFromMethodDeclaration ''    new Thread(staticRunner)'' [] = Inl TypeError"
  by code_simp

lemma thread_classification:
  "classifyDiff (getGenericTypeExtensions threadPrevious) [] [''foo'', ''baz''] threadDiff
     = Inl TypeError"
  by code_simp

text \<open>
  C10: a call that passes the check for a previous text should overwrite the attribution
  of every entry of the current cost list and of the head of its history. The code does
  not do so in every such call. The declaration pattern matches
  \<open>new Thread(staticRunner)\<close> as a declaration; its parameter \<open>staticRunner\<close> holds the
  word \<open>static\<close>, so the modifier test of line 150 skips it and line 151 reads a part
  that is not there. The error leaves the call from line 103, before the loop of line
  124: the entry keeps the attribution \<open>["stale()"]\<close>, although \<open>baz()\<close>, whose
  method is registered, was added.
\<close>

theorem raising_check_leaves_stale_attribution:
  "previousTextOf threadState = Some threadPrevious \<and> threadPrevious \<noteq> []
   \<and> currentInferCost threadState = Some [0]
   \<and> changeCauseMethods (heap threadState 0) = Some [''stale()'']
   \<and> ''baz()'' \<in> set (occurrences threadAdded)
   \<and> getParameterTypesFromMethodDeclaration ''    new Thread(staticRunner)'' [] = Inl TypeError
   \<and> classification threadDiffLines [] threadSaved threadState = Some (Inl TypeError)
   \<and> significantCodeChangeCheck threadDiffLines [] threadSaved threadState = Inl TypeError"
proof -
  have c: "classifyDiff (getGenericTypeExtensions threadPrevious) [] (nonConstantMethods threadState)
      (threadDiffLines threadPrevious threadSaved) = Inl TypeError"
    by (simp add: threadState_fields thread_texts thread_classification)
  have p: "mapGet (savedDocumentTexts threadState) (activeFileName threadState) = Some threadPrevious"
    using threadState_fields(1) by (simp add: previousTextOf_def)
  have "classification threadDiffLines [] threadSaved threadState = Some (Inl TypeError)"
    by (simp add: classification_def threadState_fields(1) thread_texts(1) c)
  moreover have "significantCodeChangeCheck threadDiffLines [] threadSaved threadState = Inl TypeError"
    by (simp add: significantCodeChangeCheck_def p thread_texts(1) c)
  ultimately show ?thesis
    by (simp add: threadState_fields thread_texts(1) thread_occurrences thread_parameter_types)
qed

end
